theory Spec2Isabelle
  imports Complex_Main "HOL-Library.Word" "HOL-Library.AList"
begin

section \<open>Audio container builder\<close>

text \<open>
  The fixed capture format of the voice manager (\<^verbatim>\<open>SAMPLE_RATE\<close>, \<^verbatim>\<open>CHANNELS\<close>,
  \<^verbatim>\<open>BIT_DEPTH\<close>) and the shortest segment that is processed. The source writes
  \<^verbatim>\<open>MIN_SEGMENT_SECONDS = 0.35\<close>; durations are modelled as exact rationals.
\<close>

definition SAMPLE_RATE :: nat where "SAMPLE_RATE = 48000"
definition CHANNELS :: nat where "CHANNELS = 2"
definition BIT_DEPTH :: nat where "BIT_DEPTH = 16"
definition MIN_SEGMENT_SECONDS :: rat where "MIN_SEGMENT_SECONDS = 35 / 100"

text \<open>
  A Node \<^verbatim>\<open>Buffer\<close> is a list of bytes. The integer writers of \<^verbatim>\<open>Buffer\<close> raise a
  \<^verbatim>\<open>RangeError\<close> when the value does not fit the field or the field does not fit the
  buffer; \<^verbatim>\<open>buf.write\<close> (here \<open>writeString\<close>) stores the bytes of an ASCII string and drops what does not fit.
\<close>

type_synonym byte = "8 word"
type_synonym Buffer = "byte list"

datatype error = RangeError | IOError

definition alloc :: "nat \<Rightarrow> Buffer" where
  "alloc n = replicate n 0"

fun le_bytes :: "nat \<Rightarrow> nat \<Rightarrow> byte list" where
  "le_bytes 0 v = []"
| "le_bytes (Suc k) v = of_nat (v mod 256) # le_bytes k (v div 256)"

fun le_value :: "byte list \<Rightarrow> nat" where
  "le_value [] = 0"
| "le_value (b # bs) = unat b + 256 * le_value bs"

definition subarray :: "nat \<Rightarrow> nat \<Rightarrow> Buffer \<Rightarrow> Buffer" where
  "subarray off n buf = take n (drop off buf)"

definition ascii :: "string \<Rightarrow> Buffer" where
  "ascii s = map of_char s"

definition writeBytes :: "byte list \<Rightarrow> nat \<Rightarrow> Buffer \<Rightarrow> Buffer" where
  "writeBytes bs off buf = take off buf @ bs @ drop (off + length bs) buf"

definition writeString :: "string \<Rightarrow> nat \<Rightarrow> Buffer \<Rightarrow> error + Buffer" where
  "writeString s off buf =
     (if length buf < off then Inl RangeError
      else Inr (writeBytes (ascii (take (length buf - off) s)) off buf))"

definition writeUInt32LE :: "nat \<Rightarrow> nat \<Rightarrow> Buffer \<Rightarrow> error + Buffer" where
  "writeUInt32LE v off buf =
     (if 4294967295 < v \<or> length buf < off + 4 then Inl RangeError
      else Inr (writeBytes (le_bytes 4 v) off buf))"

definition writeUInt16LE :: "nat \<Rightarrow> nat \<Rightarrow> Buffer \<Rightarrow> error + Buffer" where
  "writeUInt16LE v off buf =
     (if 65535 < v \<or> length buf < off + 2 then Inl RangeError
      else Inr (writeBytes (le_bytes 2 v) off buf))"

definition readUInt32LE :: "nat \<Rightarrow> Buffer \<Rightarrow> nat" where
  "readUInt32LE off buf = le_value (take 4 (drop off buf))"

definition readUInt16LE :: "nat \<Rightarrow> Buffer \<Rightarrow> nat" where
  "readUInt16LE off buf = le_value (take 2 (drop off buf))"

text \<open>
  The statements of \<^verbatim>\<open>buildWavBuffer\<close> on the header, in the order of the source; the
  first one that raises ends the function.
\<close>

datatype header_op =
  Write string nat
| WriteUInt32LE nat nat
| WriteUInt16LE nat nat

fun header_write :: "header_op \<Rightarrow> Buffer \<Rightarrow> error + Buffer" where
  "header_write (Write s off) buf = writeString s off buf"
| "header_write (WriteUInt32LE v off) buf = writeUInt32LE v off buf"
| "header_write (WriteUInt16LE v off) buf = writeUInt16LE v off buf"

fun header_writes :: "header_op list \<Rightarrow> Buffer \<Rightarrow> error + Buffer" where
  "header_writes [] buf = Inr buf"
| "header_writes (w # ws) buf =
     (case header_write w buf of Inl e \<Rightarrow> Inl e | Inr buf' \<Rightarrow> header_writes ws buf')"

definition buildWavBuffer :: "Buffer \<Rightarrow> error + Buffer" where
  "buildWavBuffer pcm =
     (let blockAlign = (CHANNELS * BIT_DEPTH) div 8;
          byteRate = SAMPLE_RATE * blockAlign
      in case header_writes
           [Write ''RIFF'' 0,
            WriteUInt32LE (36 + length pcm) 4,
            Write ''WAVE'' 8,
            Write ''fmt '' 12,
            WriteUInt32LE 16 16,
            WriteUInt16LE 1 20,
            WriteUInt16LE CHANNELS 22,
            WriteUInt32LE SAMPLE_RATE 24,
            WriteUInt32LE byteRate 28,
            WriteUInt16LE blockAlign 32,
            WriteUInt16LE BIT_DEPTH 34,
            Write ''data'' 36,
            WriteUInt32LE (length pcm) 40]
           (alloc 44) of
           Inl e \<Rightarrow> Inl e
         | Inr header \<Rightarrow> Inr (header @ pcm))"

text \<open>The header that \<^verbatim>\<open>buildWavBuffer\<close> is expected to produce for a payload of \<open>n\<close> bytes.\<close>

definition wav_header :: "nat \<Rightarrow> Buffer" where
  "wav_header n =
     ascii ''RIFF'' @ le_bytes 4 (36 + n) @ ascii ''WAVE'' @ ascii ''fmt '' @
     le_bytes 4 16 @ le_bytes 2 1 @ le_bytes 2 2 @ le_bytes 4 48000 @ le_bytes 4 192000 @
     le_bytes 2 4 @ le_bytes 2 16 @ ascii ''data'' @ le_bytes 4 n"

text \<open>
  \<^verbatim>\<open>estimateDurationSeconds\<close>. The source divides in IEEE double arithmetic and compares the
  quotient with the double nearest to 0.35. For a byte count \<open>n\<close> the exact quotient
  \<open>n / 192000\<close> is either at least \<open>67200 / 192000\<close>, which rounds to that very double, or at
  most \<open>67199 / 192000\<close>, which lies below it by more than \<open>5e-6\<close>: the comparison of the
  doubles and the comparison of the exact rationals agree, so the model uses rationals.
\<close>

definition estimateDurationSeconds :: "Buffer \<Rightarrow> rat" where
  "estimateDurationSeconds pcm =
     (let bytesPerSample = (BIT_DEPTH div 8) * CHANNELS
      in if bytesPerSample \<le> 0 then 0
         else of_nat (length pcm) / of_nat (bytesPerSample * SAMPLE_RATE))"

section \<open>Opus decoding and the scratch file\<close>

text \<open>
  What the receive stream yields, one item per iteration of the \<^verbatim>\<open>for await\<close> loop: a
  buffer, a value that is no buffer, or an error raised by the stream. The decoder answers
  each chunk with decoded bytes (none for \<^verbatim>\<open>null\<close>) or raises. The \<^verbatim>\<open>try\<close> around the
  loop keeps what was decoded before an error.
\<close>

datatype stream_item = Chunk Buffer | NotBuffer | StreamError
datatype decode_result = Decoded Buffer | DecodeThrows

fun decodeChunks :: "(Buffer \<Rightarrow> decode_result) \<Rightarrow> stream_item list \<Rightarrow> Buffer list \<Rightarrow> Buffer list" where
  "decodeChunks decode [] chunks = chunks"
| "decodeChunks decode (StreamError # rest) chunks = chunks"
| "decodeChunks decode (NotBuffer # rest) chunks = decodeChunks decode rest chunks"
| "decodeChunks decode (Chunk chunk # rest) chunks =
     (if length chunk = 0 then decodeChunks decode rest chunks
      else case decode chunk of
             DecodeThrows \<Rightarrow> chunks
           | Decoded decoded \<Rightarrow>
               if 0 < length decoded then decodeChunks decode rest (chunks @ [decoded])
               else decodeChunks decode rest chunks)"

definition decodeOpusStream :: "(Buffer \<Rightarrow> decode_result) \<Rightarrow> stream_item list \<Rightarrow> Buffer" where
  "decodeOpusStream decode stream =
     (let chunks = decodeChunks decode stream []
      in if 0 < length chunks then concat chunks else alloc 0)"

text \<open>
  \<^verbatim>\<open>writeWavFile\<close>. The file system is a parameter: \<^verbatim>\<open>mkdtemp\<close> answers with the new
  scratch directory or rejects, \<^verbatim>\<open>randomUUID\<close> names the file, and \<^verbatim>\<open>writeFile\<close> stores the
  container or rejects. The timer of \<^verbatim>\<open>scheduleTempCleanup\<close> only deletes the directory
  later and is left out.
\<close>

record fs_env =
  mkdtemp :: "string option"
  randomUUID :: string
  writeFile :: "string \<Rightarrow> Buffer \<Rightarrow> bool"

definition writeWavFile :: "fs_env \<Rightarrow> Buffer \<Rightarrow> error + (string \<times> rat)" where
  "writeWavFile fs pcm =
     (case mkdtemp fs of
        None \<Rightarrow> Inl IOError
      | Some tempDir \<Rightarrow>
          let filePath = tempDir @ ''/'' @ ''segment-'' @ randomUUID fs @ ''.wav''
          in case buildWavBuffer pcm of
               Inl e \<Rightarrow> Inl e
             | Inr wav \<Rightarrow>
                 if writeFile fs filePath wav
                 then Inr (filePath, estimateDurationSeconds pcm)
                 else Inl IOError)"

section \<open>Strings\<close>

text \<open>
  A \<open>char\<close> stands for a code unit of a JavaScript string below 256 (the Latin-1 range);
  strings with higher code units are outside this model. \<^verbatim>\<open>String.prototype.trim\<close> removes
  the white space and the line terminators of ECMAScript at both ends; in this range
  they are TAB, LF, VT, FF, CR, the space and the no-break space U+00A0. A JavaScript
  string is falsy when it is empty, an optional one also when it is absent.
\<close>

definition isWhiteSpace :: "char \<Rightarrow> bool" where
  "isWhiteSpace c =
     (c \<in> {CHR 0x09, CHR 0x0A, CHR 0x0B, CHR 0x0C, CHR 0x0D, CHR 0x20, CHR 0xA0})"

definition trim :: "string \<Rightarrow> string" where
  "trim s = rev (dropWhile isWhiteSpace (rev (dropWhile isWhiteSpace s)))"

definition truthy :: "string option \<Rightarrow> bool" where
  "truthy s = (case s of None \<Rightarrow> False | Some t \<Rightarrow> t \<noteq> [])"

fun join_lines :: "string list \<Rightarrow> string" where
  "join_lines [] = []"
| "join_lines [t] = t"
| "join_lines (t # ts) = t @ [CHR 0x0A] @ join_lines ts"

text \<open>\<^verbatim>\<open>haystack.includes(needle)\<close>, to say that a message mentions a phrase.\<close>

fun mentions :: "string \<Rightarrow> string \<Rightarrow> bool" where
  "mentions [] needle = (needle = [])"
| "mentions (c # cs) needle =
     (take (length needle) (c # cs) = needle \<or> mentions cs needle)"

section \<open>Promise chains\<close>

text \<open>
  The two queues of a session are promise chains: \<^verbatim>\<open>Promise.resolve()\<close> at first, and
  \<^verbatim>\<open>queue.then(task).catch(warn)\<close> after each enqueue. A chain settles from the inside
  out: \<^verbatim>\<open>then\<close> runs its task once the promise before it is fulfilled and passes a
  rejection on without running it; \<^verbatim>\<open>catch\<close> turns a rejection into a warning and is
  fulfilled either way. The outcome of each task (whether its \<^verbatim>\<open>async\<close> body returns or
  throws) is a parameter.
\<close>

datatype 't promise = PromiseResolve | Then "'t promise" 't | Catch "'t promise" string

datatype 't event = Started 't | Completed 't | Failed 't | Warned string 't

datatype 't settled = Fulfilled | Rejected 't

fun settle :: "('t \<Rightarrow> bool) \<Rightarrow> 't promise \<Rightarrow> 't event list \<times> 't settled" where
  "settle returns PromiseResolve = ([], Fulfilled)"
| "settle returns (Then p task) =
     (case settle returns p of
        (trace, Fulfilled) \<Rightarrow>
          if returns task then (trace @ [Started task, Completed task], Fulfilled)
          else (trace @ [Started task, Failed task], Rejected task)
      | (trace, Rejected t) \<Rightarrow> (trace, Rejected t))"
| "settle returns (Catch p warning) =
     (case settle returns p of
        (trace, Fulfilled) \<Rightarrow> (trace, Fulfilled)
      | (trace, Rejected t) \<Rightarrow> (trace @ [Warned warning t], Fulfilled))"

text \<open>The events of one task that is reached with the chain before it fulfilled.\<close>

definition task_events :: "('t \<Rightarrow> bool) \<Rightarrow> string \<Rightarrow> 't \<Rightarrow> 't event list" where
  "task_events returns warning task =
     (if returns task then [Started task, Completed task]
      else [Started task, Failed task, Warned warning task])"

section \<open>Sessions and the manager\<close>

record agent_route =
  agentId :: string
  sessionKey :: string

text \<open>The parameters of \<^verbatim>\<open>processSegment\<close> that a processing task carries.\<close>

record segment =
  wavPath :: string
  userId :: string
  durationSeconds :: rat

text \<open>
  Connections and players are objects of the voice library that the session, the
  listeners and the queued tasks share: the manager state holds them in stores indexed by
  an address, and a session holds the addresses.
\<close>

record VoiceSessionEntry =
  guildId :: string
  channelId :: string
  route :: agent_route
  connection :: nat
  player :: nat
  playbackQueue :: "string promise"
  processingQueue :: "segment promise"
  activeSpeakers :: "string set"

datatype AudioPlayerStatus = Idle | Buffering | Playing | Paused | AutoPaused

datatype player_call = Play string | Stop bool

record AudioPlayer =
  player_status :: AudioPlayerStatus
  calls :: "player_call list"

record VoiceConnection =
  conn_guildId :: string
  conn_channelId :: string
  destroyed :: bool
  subscribed :: "nat option"
  listening :: bool

record VoiceOperationResult =
  ok :: bool
  message :: string
  res_channelId :: "string option"
  res_guildId :: "string option"

record DiscordVoiceManager =
  sessions :: "(string \<times> VoiceSessionEntry) list"
  botUserId :: "string option"
  voiceEnabled :: bool
  autoJoinEntries :: "(string \<times> string) list"
  connections :: "nat \<Rightarrow> VoiceConnection"
  next_connection :: nat
  players :: "nat \<Rightarrow> AudioPlayer"
  next_player :: nat
  warnings :: "string list"

text \<open>
  The account configuration: \<^verbatim>\<open>discordConfig.voice\<close> may be absent, and its fields
  \<^verbatim>\<open>enabled\<close> and \<^verbatim>\<open>autoJoin\<close> are optional. The constructor fixes \<^verbatim>\<open>voiceEnabled\<close>.
\<close>

record voice_config =
  enabled :: "bool option"
  autoJoin_config :: "(string \<times> string) list option"

definition new_manager :: "voice_config option \<Rightarrow> string option \<Rightarrow> DiscordVoiceManager" where
  "new_manager voice botId =
     \<lparr>sessions = [],
      botUserId = botId,
      voiceEnabled = (case voice of None \<Rightarrow> False | Some v \<Rightarrow> enabled v \<noteq> Some False),
      autoJoinEntries =
        (case voice of None \<Rightarrow> []
         | Some v \<Rightarrow> (case autoJoin_config v of None \<Rightarrow> [] | Some entries \<Rightarrow> entries)),
      connections = (\<lambda>_. \<lparr>conn_guildId = [], conn_channelId = [], destroyed = True,
                            subscribed = None, listening = False\<rparr>),
      next_connection = 0,
      players = (\<lambda>_. \<lparr>player_status = Idle, calls = []\<rparr>),
      next_player = 0,
      warnings = []\<rparr>"

definition setBotUserId :: "string option \<Rightarrow> DiscordVoiceManager \<Rightarrow> DiscordVoiceManager" where
  "setBotUserId newId m = (if truthy newId then m\<lparr>botUserId := newId\<rparr> else m)"

definition isEnabled :: "DiscordVoiceManager \<Rightarrow> bool" where
  "isEnabled m = voiceEnabled m"

subsection \<open>Players, connections and teardown\<close>

text \<open>
  \<^verbatim>\<open>player.stop(force)\<close> and \<^verbatim>\<open>player.play(resource)\<close> are recorded as calls on the
  player; a forced stop leaves the player idle at once. \<^verbatim>\<open>connection.destroy()\<close> marks the
  connection and emits \<^verbatim>\<open>Destroyed\<close>, whose listener (installed by a successful
  \<^verbatim>\<open>join\<close>) deletes the registry key of the connection's guild.
\<close>

definition player_stop :: "nat \<Rightarrow> bool \<Rightarrow> DiscordVoiceManager \<Rightarrow> DiscordVoiceManager" where
  "player_stop pid force m =
     m\<lparr>players := (players m)
          (pid := (players m pid)
             \<lparr>player_status := (if force then Idle else player_status (players m pid)),
              calls := calls (players m pid) @ [Stop force]\<rparr>)\<rparr>"

definition player_play :: "nat \<Rightarrow> string \<Rightarrow> DiscordVoiceManager \<Rightarrow> DiscordVoiceManager" where
  "player_play pid audioPath m =
     m\<lparr>players := (players m)
          (pid := (players m pid)
             \<lparr>player_status := Playing,
              calls := calls (players m pid) @ [Play audioPath]\<rparr>)\<rparr>"

definition connection_destroy :: "nat \<Rightarrow> DiscordVoiceManager \<Rightarrow> DiscordVoiceManager" where
  "connection_destroy cid m =
     (let m1 = m\<lparr>connections := (connections m)(cid := (connections m cid)\<lparr>destroyed := True\<rparr>)\<rparr>
      in if listening (connections m cid)
         then m1\<lparr>sessions := AList.delete (conn_guildId (connections m cid)) (sessions m1)\<rparr>
         else m1)"

text \<open>The \<^verbatim>\<open>stop\<close> closure of a session entry.\<close>

definition stop :: "VoiceSessionEntry \<Rightarrow> DiscordVoiceManager \<Rightarrow> DiscordVoiceManager" where
  "stop entry m = connection_destroy (connection entry) (player_stop (player entry) False m)"

text \<open>
  The listener for \<^verbatim>\<open>Disconnected\<close>: when the connection does not get back to signalling
  or connecting within five seconds, the registry key is deleted and the connection
  destroyed.
\<close>

definition onDisconnected :: "bool \<Rightarrow> nat \<Rightarrow> DiscordVoiceManager \<Rightarrow> DiscordVoiceManager" where
  "onDisconnected recovered cid m =
     (if recovered then m
      else connection_destroy cid
             (m\<lparr>sessions := AList.delete (conn_guildId (connections m cid)) (sessions m)\<rparr>))"

subsection \<open>leave, destroy, status\<close>

definition failure :: "string \<Rightarrow> VoiceOperationResult" where
  "failure msg = \<lparr>ok = False, message = msg, res_channelId = None, res_guildId = None\<rparr>"

definition leave ::
  "string \<Rightarrow> string option \<Rightarrow> DiscordVoiceManager \<Rightarrow> VoiceOperationResult \<times> DiscordVoiceManager" where
  "leave guildId0 channelId0 m =
     (let guild = trim guildId0
      in case map_of (sessions m) guild of
           None \<Rightarrow> (failure ''Not connected to a voice channel.'', m)
         | Some entry \<Rightarrow>
             if truthy channelId0 \<and> channelId0 \<noteq> Some (channelId entry)
             then (failure ''Not connected to that voice channel.'', m)
             else let m1 = stop entry m;
                      m2 = m1\<lparr>sessions := AList.delete guild (sessions m1)\<rparr>
                  in (\<lparr>ok = True,
                       message = ''Left <#'' @ channelId entry @ ''>.'',
                       res_channelId = Some (channelId entry),
                       res_guildId = Some guild\<rparr>, m2))"

definition destroy :: "DiscordVoiceManager \<Rightarrow> DiscordVoiceManager" where
  "destroy m = (foldl (\<lambda>m' entry. stop entry m') m (map snd (sessions m)))\<lparr>sessions := []\<rparr>"

definition status :: "DiscordVoiceManager \<Rightarrow> VoiceOperationResult list" where
  "status m =
     map (\<lambda>session.
            \<lparr>ok = True,
             message = ''connected: guild '' @ guildId session @ '' channel '' @ channelId session,
             res_channelId = Some (channelId session),
             res_guildId = Some (guildId session)\<rparr>)
         (map snd (sessions m))"

subsection \<open>join and autoJoin\<close>

text \<open>
  What the Discord client answers during a \<^verbatim>\<open>join\<close>. \<^verbatim>\<open>fetchChannel\<close> gives \<open>None\<close> when
  the request is rejected (the source catches that) or yields nothing; a channel object
  may or may not carry a \<^verbatim>\<open>type\<close> (the numeric \<^verbatim>\<open>ChannelType\<close> of the Discord API) and a
  \<^verbatim>\<open>guildId\<close>. \<^verbatim>\<open>entersReady\<close> is the wait for the \<^verbatim>\<open>Ready\<close> state: \<open>Some err\<close> when it
  times out with error \<open>err\<close>.
\<close>

record channel_info =
  channel_type :: "nat option"
  channel_guildId :: "string option"

record client_env =
  fetchChannel :: "string \<Rightarrow> channel_info option"
  voicePlugin :: bool
  entersReady :: "string \<Rightarrow> string \<Rightarrow> string option"
  resolveAgentRoute :: "string \<Rightarrow> string \<Rightarrow> agent_route"

definition GuildVoice :: nat where "GuildVoice = 2"
definition GuildStageVoice :: nat where "GuildStageVoice = 13"

definition isVoiceChannel :: "nat \<Rightarrow> bool" where
  "isVoiceChannel ty = (ty = GuildVoice \<or> ty = GuildStageVoice)"

text \<open>
  The second half of \<^verbatim>\<open>join\<close>, from the fetch of the channel to the registration of the
  new session; \<open>guild\<close> and \<open>channel\<close> are the trimmed identifiers. \<open>establish\<close> and \<open>join\<close>
  give the result and the state of a call during which nothing else runs.
\<close>

definition establish ::
  "client_env \<Rightarrow> string \<Rightarrow> string \<Rightarrow> DiscordVoiceManager \<Rightarrow> VoiceOperationResult \<times> DiscordVoiceManager" where
  "establish env guild channel m =
     (case fetchChannel env channel of
        None \<Rightarrow> (failure (''Channel '' @ channel @ '' is not a voice channel.''), m)
      | Some channelInfo \<Rightarrow>
          if (case channel_type channelInfo of None \<Rightarrow> False | Some ty \<Rightarrow> \<not> isVoiceChannel ty)
          then (failure (''Channel '' @ channel @ '' is not a voice channel.''), m)
          else if (case channel_guildId channelInfo of
                     None \<Rightarrow> False
                   | Some channelGuildId \<Rightarrow> channelGuildId \<noteq> [] \<and> channelGuildId \<noteq> guild)
          then (failure ''Voice channel is not in this guild.'', m)
          else if \<not> voicePlugin env
          then (failure ''Discord voice plugin is not available.'', m)
          else
            let cid = next_connection m;
                m1 = m\<lparr>connections := (connections m)
                         (cid := \<lparr>conn_guildId = guild, conn_channelId = channel,
                                  destroyed = False, subscribed = None, listening = False\<rparr>),
                       next_connection := Suc cid\<rparr>
            in case entersReady env guild channel of
                 Some err \<Rightarrow>
                   (failure (''Failed to join voice channel: '' @ err), connection_destroy cid m1)
               | None \<Rightarrow>
                   let pid = next_player m1;
                       entry = \<lparr>guildId = guild,
                                channelId = channel,
                                route = resolveAgentRoute env guild channel,
                                connection = cid,
                                player = pid,
                                playbackQueue = PromiseResolve,
                                processingQueue = PromiseResolve,
                                activeSpeakers = {}\<rparr>;
                       m2 = m1\<lparr>players := (players m1)(pid := \<lparr>player_status = Idle, calls = []\<rparr>),
                               next_player := Suc pid,
                               connections := (connections m1)
                                 (cid := (connections m1 cid)\<lparr>subscribed := Some pid, listening := True\<rparr>)\<rparr>
                   in (\<lparr>ok = True,
                        message = ''Joined <#'' @ channel @ ''>.'',
                        res_channelId = Some channel,
                        res_guildId = Some guild\<rparr>,
                       m2\<lparr>sessions := AList.update guild entry (sessions m2)\<rparr>))"

definition join ::
  "client_env \<Rightarrow> string \<Rightarrow> string \<Rightarrow> DiscordVoiceManager \<Rightarrow> VoiceOperationResult \<times> DiscordVoiceManager" where
  "join env guildId0 channelId0 m =
     (if \<not> voiceEnabled m
      then (failure ''Discord voice is disabled (channels.discord.voice.enabled).'', m)
      else
        let guild = trim guildId0;
            channel = trim channelId0
        in if guild = [] \<or> channel = []
           then (failure ''Missing guildId or channelId.'', m)
           else
             let existing = map_of (sessions m) guild
             in if (case existing of None \<Rightarrow> False | Some e \<Rightarrow> channelId e = channel)
                then (\<lparr>ok = True,
                       message = ''Already connected to <#'' @ channel @ ''>.'',
                       res_channelId = Some channel,
                       res_guildId = Some guild\<rparr>, m)
                else
                  let m1 = (case existing of
                              None \<Rightarrow> m
                            | Some e \<Rightarrow> snd (leave guild None m))
                  in establish env guild channel m1)"

text \<open>
  \<^verbatim>\<open>join\<close> is an \<^verbatim>\<open>async\<close> function: it gives up control at \<^verbatim>\<open>await this.leave\<close> and
  \<^verbatim>\<open>await fetchChannel\<close> (lines 257 and 260) and at \<^verbatim>\<open>await entersState\<close> (line 284), and
  other calls and listeners may run there. Its three parts, each running without
  interruption: up to the fetch (the guards, the test of the existing session and the
  \<^verbatim>\<open>leave\<close>), from the answer of the fetch to the wait for \<^verbatim>\<open>Ready\<close> (the validation and
  \<^verbatim>\<open>joinVoiceChannel\<close>), and from the end of that wait to the return. A part that returns
  gives \<open>Inl\<close> of the result; a part that suspends gives \<open>Inr\<close> of what the next part
  needs.
\<close>

definition join_start ::
  "string \<Rightarrow> string \<Rightarrow> DiscordVoiceManager \<Rightarrow>
     (VoiceOperationResult + string \<times> string) \<times> DiscordVoiceManager" where
  "join_start guildId0 channelId0 m =
     (if \<not> voiceEnabled m
      then (Inl (failure ''Discord voice is disabled (channels.discord.voice.enabled).''), m)
      else
        let guild = trim guildId0;
            channel = trim channelId0
        in if guild = [] \<or> channel = []
           then (Inl (failure ''Missing guildId or channelId.''), m)
           else
             let existing = map_of (sessions m) guild
             in if (case existing of None \<Rightarrow> False | Some e \<Rightarrow> channelId e = channel)
                then (Inl \<lparr>ok = True,
                           message = ''Already connected to <#'' @ channel @ ''>.'',
                           res_channelId = Some channel,
                           res_guildId = Some guild\<rparr>, m)
                else (Inr (guild, channel),
                      (case existing of
                         None \<Rightarrow> m
                       | Some e \<Rightarrow> snd (leave guild None m))))"

definition join_fetched ::
  "client_env \<Rightarrow> string \<Rightarrow> string \<Rightarrow> DiscordVoiceManager \<Rightarrow>
     (VoiceOperationResult + nat) \<times> DiscordVoiceManager" where
  "join_fetched env guild channel m =
     (case fetchChannel env channel of
        None \<Rightarrow> (Inl (failure (''Channel '' @ channel @ '' is not a voice channel.'')), m)
      | Some channelInfo \<Rightarrow>
          if (case channel_type channelInfo of None \<Rightarrow> False | Some ty \<Rightarrow> \<not> isVoiceChannel ty)
          then (Inl (failure (''Channel '' @ channel @ '' is not a voice channel.'')), m)
          else if (case channel_guildId channelInfo of
                     None \<Rightarrow> False
                   | Some channelGuildId \<Rightarrow> channelGuildId \<noteq> [] \<and> channelGuildId \<noteq> guild)
          then (Inl (failure ''Voice channel is not in this guild.''), m)
          else if \<not> voicePlugin env
          then (Inl (failure ''Discord voice plugin is not available.''), m)
          else
            let cid = next_connection m
            in (Inr cid,
                m\<lparr>connections := (connections m)
                     (cid := \<lparr>conn_guildId = guild, conn_channelId = channel,
                              destroyed = False, subscribed = None, listening = False\<rparr>),
                   next_connection := Suc cid\<rparr>))"

definition join_ready ::
  "client_env \<Rightarrow> string \<Rightarrow> string \<Rightarrow> nat \<Rightarrow> DiscordVoiceManager \<Rightarrow>
     VoiceOperationResult \<times> DiscordVoiceManager" where
  "join_ready env guild channel cid m =
     (case entersReady env guild channel of
        Some err \<Rightarrow>
          (failure (''Failed to join voice channel: '' @ err), connection_destroy cid m)
      | None \<Rightarrow>
          let pid = next_player m;
              entry = \<lparr>guildId = guild,
                       channelId = channel,
                       route = resolveAgentRoute env guild channel,
                       connection = cid,
                       player = pid,
                       playbackQueue = PromiseResolve,
                       processingQueue = PromiseResolve,
                       activeSpeakers = {}\<rparr>;
              m2 = m\<lparr>players := (players m)(pid := \<lparr>player_status = Idle, calls = []\<rparr>),
                     next_player := Suc pid,
                     connections := (connections m)
                       (cid := (connections m cid)\<lparr>subscribed := Some pid, listening := True\<rparr>)\<rparr>
          in (\<lparr>ok = True,
               message = ''Joined <#'' @ channel @ ''>.'',
               res_channelId = Some channel,
               res_guildId = Some guild\<rparr>,
              m2\<lparr>sessions := AList.update guild entry (sessions m2)\<rparr>))"

text \<open>
  \<^verbatim>\<open>autoJoin\<close>, as a call during which nothing else runs, so that \<^verbatim>\<open>autoJoinTask\<close> is \<^verbatim>\<open>null\<close>
  when it begins.
\<close>

fun autoJoin_loop ::
  "client_env \<Rightarrow> (string \<times> string) list \<Rightarrow> string set \<Rightarrow> DiscordVoiceManager \<Rightarrow> DiscordVoiceManager" where
  "autoJoin_loop env [] seenGuilds m = m"
| "autoJoin_loop env ((entryGuildId, entryChannelId) # entries) seenGuilds m =
     (let guild = trim entryGuildId
      in if guild = [] then autoJoin_loop env entries seenGuilds m
         else if guild \<in> seenGuilds
         then autoJoin_loop env entries seenGuilds
                (m\<lparr>warnings := warnings m @
                     [''discord voice: autoJoin has multiple entries for guild '' @ guild @ ''; skipping'']\<rparr>)
         else autoJoin_loop env entries (insert guild seenGuilds)
                (snd (join env entryGuildId entryChannelId m)))"

definition autoJoin :: "client_env \<Rightarrow> DiscordVoiceManager \<Rightarrow> DiscordVoiceManager" where
  "autoJoin env m =
     (if \<not> voiceEnabled m then m else autoJoin_loop env (autoJoinEntries m) {} m)"

section \<open>Speaker capture\<close>

definition enqueueProcessing :: "VoiceSessionEntry \<Rightarrow> segment \<Rightarrow> VoiceSessionEntry" where
  "enqueueProcessing entry task =
     entry\<lparr>processingQueue :=
       Catch (Then (processingQueue entry) task) ''discord voice: processing failed: ''\<rparr>"

definition enqueuePlayback :: "VoiceSessionEntry \<Rightarrow> string \<Rightarrow> VoiceSessionEntry" where
  "enqueuePlayback entry task =
     entry\<lparr>playbackQueue :=
       Catch (Then (playbackQueue entry) task) ''discord voice: playback failed: ''\<rparr>"

text \<open>
  \<^verbatim>\<open>handleSpeakingStart\<close> runs in two parts. The first is synchronous: the guards, the
  entry of the speaker into \<^verbatim>\<open>activeSpeakers\<close>, the barge-in and the subscription to the
  speaker's audio. The second runs when the stream has ended after the silence gap: the
  \<^verbatim>\<open>try\<close> block and its \<^verbatim>\<open>finally\<close>. Other handlers may change the entry in between, so
  the second part takes the entry as it is then.
\<close>

datatype capture = Ignored | Capturing

definition speakingStart ::
  "string \<Rightarrow> VoiceSessionEntry \<Rightarrow> DiscordVoiceManager \<Rightarrow> capture \<times> VoiceSessionEntry \<times> DiscordVoiceManager" where
  "speakingStart user entry m =
     (if user = [] \<or> user \<in> activeSpeakers entry then (Ignored, entry, m)
      else if truthy (botUserId m) \<and> Some user = botUserId m then (Ignored, entry, m)
      else
        let entry1 = entry\<lparr>activeSpeakers := insert user (activeSpeakers entry)\<rparr>;
            m1 = (if player_status (players m (player entry)) = Playing
                  then player_stop (player entry) True m else m)
        in (Capturing, entry1, m1))"

record capture_env =
  stream :: "stream_item list"
  decode :: "Buffer \<Rightarrow> decode_result"
  fs :: fs_env

text \<open>
  The result of the second part: the error that leaves the handler, if any, and the
  entry. The last line is the \<^verbatim>\<open>finally\<close> block.
\<close>

definition captureEnd ::
  "capture_env \<Rightarrow> string \<Rightarrow> VoiceSessionEntry \<Rightarrow> error option \<times> VoiceSessionEntry" where
  "captureEnd cenv user entry =
     (let pcm = decodeOpusStream (decode cenv) (stream cenv);
          (thrown, entry1) =
            (if length pcm = 0 then (None, entry)
             else case writeWavFile (fs cenv) pcm of
                    Inl e \<Rightarrow> (Some e, entry)
                  | Inr (path, duration) \<Rightarrow>
                      if duration < MIN_SEGMENT_SECONDS then (None, entry)
                      else (None, enqueueProcessing entry
                              \<lparr>wavPath = path, userId = user, durationSeconds = duration\<rparr>))
      in (thrown, entry1\<lparr>activeSpeakers := activeSpeakers entry1 - {user}\<rparr>))"

definition handleSpeakingStart ::
  "capture_env \<Rightarrow> string \<Rightarrow> VoiceSessionEntry \<Rightarrow> DiscordVoiceManager \<Rightarrow>
     error option \<times> VoiceSessionEntry \<times> DiscordVoiceManager" where
  "handleSpeakingStart cenv user entry m =
     (case speakingStart user entry m of
        (Ignored, entry1, m1) \<Rightarrow> (None, entry1, m1)
      | (Capturing, entry1, m1) \<Rightarrow>
          (case captureEnd cenv user entry1 of (thrown, entry2) \<Rightarrow> (thrown, entry2, m1)))"

section \<open>Processing pipeline and playback\<close>

text \<open>
  The external capabilities of one segment, each either returning or throwing:
  the media runner behind \<^verbatim>\<open>transcribeAudio\<close>, the Discord lookups behind
  \<^verbatim>\<open>resolveSpeakerLabel\<close>, the agent, the directive parser and text-to-speech.
\<close>

datatype 'a outcome = Throws string | Returns 'a

record capability_output =
  out_kind :: string
  out_text :: "string option"

record user_info =
  globalName :: "string option"
  username :: "string option"

record member_info =
  nickname :: "string option"
  member_user :: "user_info option"

record tts_directive =
  ttsText :: "string option"
  cleanedText :: string

record tts_result =
  success :: bool
  audioPath :: "string option"
  tts_error :: "string option"

record pipeline_env =
  normalizeMediaAttachments :: "string \<Rightarrow> nat"
  runCapability :: "string \<Rightarrow> capability_output list outcome"
  fetchMember :: "string \<Rightarrow> string \<Rightarrow> member_info outcome"
  fetchUser :: "string \<Rightarrow> user_info outcome"
  agentCommand :: "string \<Rightarrow> agent_route \<Rightarrow> string option list outcome"
  parseTtsDirectives :: "string \<Rightarrow> tts_directive"
  textToSpeech :: "string \<Rightarrow> tts_directive \<Rightarrow> tts_result outcome"

definition transcribeAudio :: "pipeline_env \<Rightarrow> string \<Rightarrow> string option outcome" where
  "transcribeAudio penv filePath =
     (if normalizeMediaAttachments penv filePath = 0 then Returns None
      else case runCapability penv filePath of
             Throws err \<Rightarrow> Throws err
           | Returns outputs \<Rightarrow>
               (case find (\<lambda>entry. out_kind entry = ''audio.transcription'') outputs of
                  None \<Rightarrow> Returns None
                | Some output \<Rightarrow>
                    (case out_text output of
                       None \<Rightarrow> Returns None
                     | Some t \<Rightarrow> if trim t = [] then Returns None else Returns (Some (trim t)))))"

definition userLabel :: "user_info \<Rightarrow> string \<Rightarrow> string" where
  "userLabel user fallback =
     (case globalName user of
        Some name \<Rightarrow> name
      | None \<Rightarrow> (case username user of Some name \<Rightarrow> name | None \<Rightarrow> fallback))"

definition resolveSpeakerLabel :: "pipeline_env \<Rightarrow> string \<Rightarrow> string \<Rightarrow> string" where
  "resolveSpeakerLabel penv guild user =
     (case fetchMember penv guild user of
        Returns member \<Rightarrow>
          (case nickname member of
             Some name \<Rightarrow> name
           | None \<Rightarrow> (case member_user member of
                        Some u \<Rightarrow> userLabel u user
                      | None \<Rightarrow> user))
      | Throws _ \<Rightarrow>
          (case fetchUser penv user of
             Returns u \<Rightarrow> userLabel u user
           | Throws _ \<Rightarrow> user))"

definition replyTextOf :: "string option list \<Rightarrow> string" where
  "replyTextOf payloads =
     trim (join_lines (map the (filter (\<lambda>t. t \<noteq> None \<and> trim (the t) \<noteq> []) payloads)))"

definition promptOf :: "string \<Rightarrow> string \<Rightarrow> string" where
  "promptOf speakerLabel transcript =
     (if speakerLabel \<noteq> [] then speakerLabel @ '': '' @ transcript else transcript)"

definition speakTextOf :: "tts_directive \<Rightarrow> string" where
  "speakTextOf directive =
     (case ttsText directive of Some t \<Rightarrow> t | None \<Rightarrow> trim (cleanedText directive))"

text \<open>
  \<^verbatim>\<open>processSegment\<close> gives back how it ended, the entry and the warnings it logged. It has
  no access to the player: the only use of the player is in the playback task that it may
  enqueue.
\<close>

definition processSegment ::
  "pipeline_env \<Rightarrow> segment \<Rightarrow> VoiceSessionEntry \<Rightarrow> unit outcome \<times> VoiceSessionEntry \<times> string list" where
  "processSegment penv params entry =
     (case transcribeAudio penv (wavPath params) of
        Throws err \<Rightarrow> (Throws err, entry, [])
      | Returns None \<Rightarrow> (Returns (), entry, [])
      | Returns (Some transcript) \<Rightarrow>
          if transcript = [] then (Returns (), entry, [])
          else
            let speakerLabel = resolveSpeakerLabel penv (guildId entry) (userId params);
                prompt = promptOf speakerLabel transcript
            in case agentCommand penv prompt (route entry) of
                 Throws err \<Rightarrow> (Throws err, entry, [])
               | Returns payloads \<Rightarrow>
                   let replyText = replyTextOf payloads
                   in if replyText = [] then (Returns (), entry, [])
                      else
                        let directive = parseTtsDirectives penv replyText;
                            speakText = speakTextOf directive
                        in if speakText = [] then (Returns (), entry, [])
                           else case textToSpeech penv speakText directive of
                                  Throws err \<Rightarrow> (Throws err, entry, [])
                                | Returns ttsResult \<Rightarrow>
                                    if \<not> success ttsResult \<or> \<not> truthy (audioPath ttsResult)
                                    then (Returns (), entry,
                                          [''discord voice: TTS failed: '' @
                                           (case tts_error ttsResult of
                                              Some err \<Rightarrow> err
                                            | None \<Rightarrow> ''unknown error'')])
                                    else (Returns (),
                                          enqueuePlayback entry (the (audioPath ttsResult)), []))"

text \<open>
  The playback task: \<^verbatim>\<open>player.play\<close>, then the two bounded waits, whose time-outs are
  caught and change nothing.
\<close>

definition playbackTask :: "string \<Rightarrow> VoiceSessionEntry \<Rightarrow> DiscordVoiceManager \<Rightarrow> DiscordVoiceManager" where
  "playbackTask path entry m = player_play (player entry) path m"

section \<open>Reachable states\<close>

text \<open>
  A handler that changes a registered entry changes it in the registry, since both hold
  the same object.
\<close>

definition store_entry :: "string \<Rightarrow> VoiceSessionEntry \<Rightarrow> DiscordVoiceManager \<Rightarrow> DiscordVoiceManager" where
  "store_entry guild entry m = m\<lparr>sessions := AList.update guild entry (sessions m)\<rparr>"

text \<open>
  What waits on the event loop beside the state: a \<^verbatim>\<open>join\<close> that waits for the answer of
  \<^verbatim>\<open>fetchChannel\<close>, with its trimmed identifiers, and a \<^verbatim>\<open>Disconnected\<close> listener that
  waits up to five seconds for its connection to come back. A \<^verbatim>\<open>join\<close> that waits for
  \<^verbatim>\<open>Ready\<close> needs no entry of its own: its connection is in the store, neither listening
  nor destroyed, and every such connection belongs to one such \<^verbatim>\<open>join\<close>.
\<close>

datatype suspended = AwaitingChannel string string | AwaitingReconnect nat

text \<open>
  The runs of a manager. The parts of \<^verbatim>\<open>join\<close> are separate steps, so that calls overlap
  at the awaits; \<^verbatim>\<open>leave\<close>, \<^verbatim>\<open>destroy\<close> and \<^verbatim>\<open>setBotUserId\<close> have no await inside. A
  \<^verbatim>\<open>Disconnected\<close> event reaches the listener of a connection on which a \<^verbatim>\<open>join\<close> has
  installed one; the listener decides later, up to five seconds, whatever has become of
  the connection and of the registry by then. \<^verbatim>\<open>autoJoin\<close> is a sequence of \<^verbatim>\<open>join\<close> calls
  and warnings.
\<close>

inductive running :: "DiscordVoiceManager \<Rightarrow> suspended list \<Rightarrow> bool" where
  constructed: "running (new_manager voice botId) []"
| join_returned:
    "running m waiting \<Longrightarrow> join_start guildId0 channelId0 m = (Inl r, m') \<Longrightarrow> running m' waiting"
| join_suspended:
    "running m waiting \<Longrightarrow> join_start guildId0 channelId0 m = (Inr (guild, channel), m') \<Longrightarrow>
     running m' (AwaitingChannel guild channel # waiting)"
| channel_rejected:
    "running m waiting \<Longrightarrow> AwaitingChannel guild channel \<in> set waiting \<Longrightarrow>
     join_fetched env guild channel m = (Inl r, m') \<Longrightarrow>
     running m' (remove1 (AwaitingChannel guild channel) waiting)"
| channel_accepted:
    "running m waiting \<Longrightarrow> AwaitingChannel guild channel \<in> set waiting \<Longrightarrow>
     join_fetched env guild channel m = (Inr cid, m') \<Longrightarrow>
     running m' (remove1 (AwaitingChannel guild channel) waiting)"
| ready_settled:
    "running m waiting \<Longrightarrow> cid < next_connection m \<Longrightarrow>
     \<not> listening (connections m cid) \<Longrightarrow> \<not> destroyed (connections m cid) \<Longrightarrow>
     running (snd (join_ready env (conn_guildId (connections m cid))
                     (conn_channelId (connections m cid)) cid m)) waiting"
| left: "running m waiting \<Longrightarrow> running (snd (leave guild channelOpt m)) waiting"
| destroyed_all: "running m waiting \<Longrightarrow> running (destroy m) waiting"
| botUserIdSet: "running m waiting \<Longrightarrow> running (setBotUserId newId m) waiting"
| warned: "running m waiting \<Longrightarrow> running (m\<lparr>warnings := warnings m @ ws\<rparr>) waiting"
| disconnected:
    "running m waiting \<Longrightarrow> cid < next_connection m \<Longrightarrow> listening (connections m cid) \<Longrightarrow>
     running m (AwaitingReconnect cid # waiting)"
| reconnect_settled:
    "running m waiting \<Longrightarrow> AwaitingReconnect cid \<in> set waiting \<Longrightarrow>
     running (onDisconnected recovered cid m) (remove1 (AwaitingReconnect cid) waiting)"
| speaking:
    "running m waiting \<Longrightarrow> map_of (sessions m) guild = Some entry \<Longrightarrow>
     speakingStart user entry m = (c, entry', m') \<Longrightarrow>
     running (store_entry guild entry' m') waiting"
| captured:
    "running m waiting \<Longrightarrow> map_of (sessions m) guild = Some entry \<Longrightarrow>
     captureEnd cenv user entry = (thrown, entry') \<Longrightarrow>
     running (store_entry guild entry' m) waiting"
| processed:
    "running m waiting \<Longrightarrow> map_of (sessions m) guild = Some entry \<Longrightarrow>
     processSegment penv params entry = (r, entry', ws) \<Longrightarrow>
     running (store_entry guild entry' (m\<lparr>warnings := warnings m @ ws\<rparr>)) waiting"
| played: "running m waiting \<Longrightarrow> running (player_play pid path m) waiting"
| stopped: "running m waiting \<Longrightarrow> running (player_stop pid force m) waiting"
| player_moved:
    "running m waiting \<Longrightarrow>
     running (m\<lparr>players := (players m)(pid := (players m pid)\<lparr>player_status := st\<rparr>)\<rparr>) waiting"

definition reachable :: "DiscordVoiceManager \<Rightarrow> bool" where
  "reachable m \<longleftrightarrow> (\<exists>waiting. running m waiting)"

text \<open>
  The runs in which nothing overlaps: every call runs to its end before the next step
  begins, and the \<^verbatim>\<open>Disconnected\<close> listener decides before anything else happens. The
  voice library raises \<^verbatim>\<open>Disconnected\<close> on a connection that is not destroyed, so here the
  listener finds the connection as it was when the event was raised.
\<close>

inductive sequential :: "DiscordVoiceManager \<Rightarrow> bool" where
  constructed: "sequential (new_manager voice botId)"
| joined: "sequential m \<Longrightarrow> sequential (snd (join env guild channel m))"
| left: "sequential m \<Longrightarrow> sequential (snd (leave guild channelOpt m))"
| destroyed_all: "sequential m \<Longrightarrow> sequential (destroy m)"
| autoJoined: "sequential m \<Longrightarrow> sequential (autoJoin env m)"
| botUserIdSet: "sequential m \<Longrightarrow> sequential (setBotUserId newId m)"
| disconnected:
    "sequential m \<Longrightarrow> cid < next_connection m \<Longrightarrow> listening (connections m cid) \<Longrightarrow>
     \<not> destroyed (connections m cid) \<Longrightarrow> sequential (onDisconnected recovered cid m)"
| speaking:
    "sequential m \<Longrightarrow> map_of (sessions m) guild = Some entry \<Longrightarrow>
     speakingStart user entry m = (c, entry', m') \<Longrightarrow> sequential (store_entry guild entry' m')"
| captured:
    "sequential m \<Longrightarrow> map_of (sessions m) guild = Some entry \<Longrightarrow>
     captureEnd cenv user entry = (thrown, entry') \<Longrightarrow> sequential (store_entry guild entry' m)"
| processed:
    "sequential m \<Longrightarrow> map_of (sessions m) guild = Some entry \<Longrightarrow>
     processSegment penv params entry = (r, entry', ws) \<Longrightarrow>
     sequential (store_entry guild entry' (m\<lparr>warnings := warnings m @ ws\<rparr>))"
| played: "sequential m \<Longrightarrow> sequential (player_play pid path m)"
| stopped: "sequential m \<Longrightarrow> sequential (player_stop pid force m)"
| player_moved:
    "sequential m \<Longrightarrow>
     sequential (m\<lparr>players := (players m)(pid := (players m pid)\<lparr>player_status := st\<rparr>)\<rparr>)"

text \<open>The connections of a guild that are not destroyed, and the registered sessions of a guild.\<close>

definition live_connections :: "DiscordVoiceManager \<Rightarrow> string \<Rightarrow> nat list" where
  "live_connections m guild =
     filter (\<lambda>cid. conn_guildId (connections m cid) = guild \<and> \<not> destroyed (connections m cid))
       [0..<next_connection m]"


text \<open>
  What holds in every run, overlapping or not: the keys of the registry are distinct,
  non-empty and trimmed, an entry sits under its own guild with a trimmed, non-empty
  channel, and sessions exist only when voice is enabled; connections are created only
  with voice enabled and for trimmed, non-empty identifiers; and so are the identifiers
  that a waiting \<^verbatim>\<open>join\<close> holds.
\<close>

definition registry_basic :: "DiscordVoiceManager \<Rightarrow> bool" where
  "registry_basic m \<longleftrightarrow>
     distinct (map fst (sessions m)) \<and>
     (sessions m \<noteq> [] \<longrightarrow> voiceEnabled m) \<and>
     (\<forall>g e. map_of (sessions m) g = Some e \<longrightarrow>
        guildId e = g \<and> g \<noteq> [] \<and> trim g = g \<and>
        channelId e \<noteq> [] \<and> trim (channelId e) = channelId e)"

definition connections_ok :: "DiscordVoiceManager \<Rightarrow> bool" where
  "connections_ok m \<longleftrightarrow>
     (\<forall>cid < next_connection m.
        voiceEnabled m \<and>
        conn_guildId (connections m cid) \<noteq> [] \<and>
        trim (conn_guildId (connections m cid)) = conn_guildId (connections m cid) \<and>
        conn_channelId (connections m cid) \<noteq> [] \<and>
        trim (conn_channelId (connections m cid)) = conn_channelId (connections m cid))"

definition waiting_ok :: "DiscordVoiceManager \<Rightarrow> suspended list \<Rightarrow> bool" where
  "waiting_ok m waiting \<longleftrightarrow>
     (\<forall>g c. AwaitingChannel g c \<in> set waiting \<longrightarrow>
        voiceEnabled m \<and> g \<noteq> [] \<and> trim g = g \<and> c \<noteq> [] \<and> trim c = c)"


text \<open>
  The outcomes of the second half of \<^verbatim>\<open>join\<close>, for the case analysis of the proofs: the
  message with which the checks turn the channel down (if they do), the state after a
  connection that did not become ready, and the state with the new session.
\<close>

definition rejection :: "client_env \<Rightarrow> string \<Rightarrow> string \<Rightarrow> string option" where
  "rejection env guild channel =
     (case fetchChannel env channel of
        None \<Rightarrow> Some (''Channel '' @ channel @ '' is not a voice channel.'')
      | Some channelInfo \<Rightarrow>
          if (case channel_type channelInfo of None \<Rightarrow> False | Some ty \<Rightarrow> \<not> isVoiceChannel ty)
          then Some (''Channel '' @ channel @ '' is not a voice channel.'')
          else if (case channel_guildId channelInfo of
                     None \<Rightarrow> False
                   | Some channelGuildId \<Rightarrow> channelGuildId \<noteq> [] \<and> channelGuildId \<noteq> guild)
          then Some ''Voice channel is not in this guild.''
          else if \<not> voicePlugin env then Some ''Discord voice plugin is not available.''
          else None)"

definition new_entry :: "client_env \<Rightarrow> string \<Rightarrow> string \<Rightarrow> DiscordVoiceManager \<Rightarrow> VoiceSessionEntry" where
  "new_entry env guild channel m =
     \<lparr>guildId = guild, channelId = channel, route = resolveAgentRoute env guild channel,
      connection = next_connection m, player = next_player m,
      playbackQueue = PromiseResolve, processingQueue = PromiseResolve, activeSpeakers = {}\<rparr>"


definition registered :: "client_env \<Rightarrow> string \<Rightarrow> string \<Rightarrow> DiscordVoiceManager \<Rightarrow> DiscordVoiceManager" where
  "registered env guild channel m =
     m\<lparr>sessions := AList.update guild (new_entry env guild channel m) (sessions m),
       connections := (connections m)
          (next_connection m :=
             \<lparr>conn_guildId = guild, conn_channelId = channel, destroyed = False,
              subscribed = Some (next_player m), listening = True\<rparr>),
       next_connection := Suc (next_connection m),
       players := (players m)(next_player m := \<lparr>player_status = Idle, calls = []\<rparr>),
       next_player := Suc (next_player m)\<rparr>"

text \<open>Sample data for the concrete instances below.\<close>

definition sample_env :: client_env where
  "sample_env =
     \<lparr>fetchChannel = (\<lambda>c. if c = ''c1'' \<or> c = ''c2''
                           then Some \<lparr>channel_type = Some GuildVoice, channel_guildId = Some ''g1''\<rparr>
                           else if c = ''t1''
                           then Some \<lparr>channel_type = Some 0, channel_guildId = Some ''g1''\<rparr>
                           else if c = ''c9''
                           then Some \<lparr>channel_type = Some GuildVoice, channel_guildId = Some ''g9''\<rparr>
                           else None),
      voicePlugin = True,
      entersReady = (\<lambda>g c. None),
      resolveAgentRoute = (\<lambda>g c. \<lparr>agentId = ''main'', sessionKey = g @ '':'' @ c\<rparr>)\<rparr>"

definition sample_manager :: DiscordVoiceManager where
  "sample_manager = new_manager (Some \<lparr>enabled = None, autoJoin_config = None\<rparr>) (Some ''bot'')"

definition sample_joined :: DiscordVoiceManager where
  "sample_joined = snd (join sample_env ''g1'' ''c1'' sample_manager)"

definition sample_env_gone :: client_env where
  "sample_env_gone = sample_env\<lparr>fetchChannel := (\<lambda>c. None)\<rparr>"

text \<open>
  Two overlapping calls \<^verbatim>\<open>join(g1, c1)\<close> and \<^verbatim>\<open>join(g1, c2)\<close> on a new manager: both pass
  the first part, both channels are fetched, then both connections become ready.
\<close>

definition sample_fetched :: DiscordVoiceManager where
  "sample_fetched =
     snd (join_fetched sample_env ''g1'' ''c2''
       (snd (join_fetched sample_env ''g1'' ''c1'' sample_manager)))"

definition sample_overlapped :: DiscordVoiceManager where
  "sample_overlapped =
     snd (join_ready sample_env ''g1'' ''c2'' 1
       (snd (join_ready sample_env ''g1'' ''c1'' 0 sample_fetched)))"

text \<open>
  A \<^verbatim>\<open>Disconnected\<close> listener that decides late: the connection of \<^verbatim>\<open>sample_joined\<close> loses
  its link, \<^verbatim>\<open>join(g1, c2)\<close> replaces the session, and then the five seconds of the old
  connection's listener run out.
\<close>

definition sample_stale :: DiscordVoiceManager where
  "sample_stale = onDisconnected False 0 (snd (join sample_env ''g1'' ''c2'' sample_joined))"

definition sample_entry :: VoiceSessionEntry where
  "sample_entry =
     \<lparr>guildId = ''g1'', channelId = ''c1'',
      route = \<lparr>agentId = ''main'', sessionKey = ''g1:c1''\<rparr>,
      connection = 0, player = 0,
      playbackQueue = PromiseResolve, processingQueue = PromiseResolve,
      activeSpeakers = {}\<rparr>"

definition sample_segment :: "string \<Rightarrow> segment" where
  "sample_segment path = \<lparr>wavPath = path, userId = ''u1'', durationSeconds = 1\<rparr>"

definition sample_capture :: "nat \<Rightarrow> capture_env" where
  "sample_capture n =
     \<lparr>stream = [Chunk [1]], decode = (\<lambda>chunk. Decoded (replicate n 0)),
      fs = \<lparr>mkdtemp = Some ''/tmp/discord-voice-1'', randomUUID = ''0001'',
             writeFile = (\<lambda>filePath wav. True)\<rparr>\<rparr>"

definition sample_pipeline :: "bool \<Rightarrow> pipeline_env" where
  "sample_pipeline synthesized =
     \<lparr>normalizeMediaAttachments = (\<lambda>path. 1),
      runCapability = (\<lambda>path.
        Returns [\<lparr>out_kind = ''audio.transcription'', out_text = Some '' hello ''\<rparr>]),
      fetchMember = (\<lambda>guild user. Throws ''Unknown Member''),
      fetchUser = (\<lambda>user. Returns \<lparr>globalName = None, username = Some ''ann''\<rparr>),
      agentCommand = (\<lambda>prompt r. Returns [None, Some ''hi ann'']),
      parseTtsDirectives = (\<lambda>t. \<lparr>ttsText = None, cleanedText = t\<rparr>),
      textToSpeech = (\<lambda>t directive.
        Returns \<lparr>success = synthesized,
                 audioPath = (if synthesized then Some ''reply.ogg'' else None),
                 tts_error = (if synthesized then None else Some ''quota'')\<rparr>)\<rparr>"

section \<open>The audio container\<close>

lemma le_value_le_bytes: "v < 256 ^ k \<Longrightarrow> le_value (le_bytes k v) = v"
proof (induction k arbitrary: v)
  case 0
  then show ?case by simp
next
  case (Suc k)
  have "v div 256 < 256 ^ k"
    using Suc.prems by (simp add: less_mult_imp_div_less mult.commute)
  then have "le_value (le_bytes k (v div 256)) = v div 256"
    by (rule Suc.IH)
  then show ?case
    by (simp add: unat_of_nat)
qed

lemma length_le_bytes [simp]: "length (le_bytes k v) = k"
  by (induction k arbitrary: v) simp_all

lemma header_writes_wav_header:
  assumes "n \<le> 4294967259"
  shows "header_writes
           [Write ''RIFF'' 0,
            WriteUInt32LE (36 + n) 4,
            Write ''WAVE'' 8,
            Write ''fmt '' 12,
            WriteUInt32LE 16 16,
            WriteUInt16LE 1 20,
            WriteUInt16LE CHANNELS 22,
            WriteUInt32LE SAMPLE_RATE 24,
            WriteUInt32LE 192000 28,
            WriteUInt16LE 4 32,
            WriteUInt16LE BIT_DEPTH 34,
            Write ''data'' 36,
            WriteUInt32LE n 40]
           (alloc 44) = Inr (wav_header n)"
  using assms
  by (simp add: alloc_def writeString_def writeUInt32LE_def writeUInt16LE_def writeBytes_def
      wav_header_def ascii_def CHANNELS_def SAMPLE_RATE_def BIT_DEPTH_def)

lemma length_wav_header: "length (wav_header n) = 44"
  by (simp add: wav_header_def ascii_def)

lemma buildWavBuffer_Inr:
  assumes "length pcm \<le> 4294967259"
  shows "buildWavBuffer pcm = Inr (wav_header (length pcm) @ pcm)"
proof -
  have a: "(CHANNELS * BIT_DEPTH) div 8 = 4"
    by (simp add: CHANNELS_def BIT_DEPTH_def)
  have b: "SAMPLE_RATE * 4 = 192000"
    by (simp add: SAMPLE_RATE_def)
  show ?thesis
    by (simp only: buildWavBuffer_def Let_def a b header_writes_wav_header [OF assms] sum.case)
qed

lemma buildWavBuffer_Inl:
  "4294967259 < length pcm \<Longrightarrow> buildWavBuffer pcm = Inl RangeError"
  by (simp add: buildWavBuffer_def alloc_def writeString_def writeUInt32LE_def writeBytes_def
      ascii_def)

lemma wav_header_strings:
  "subarray 0 4 (wav_header n @ pcm) = ascii ''RIFF''"
  "subarray 8 4 (wav_header n @ pcm) = ascii ''WAVE''"
  "subarray 12 4 (wav_header n @ pcm) = ascii ''fmt ''"
  "subarray 36 4 (wav_header n @ pcm) = ascii ''data''"
  by (simp_all add: subarray_def wav_header_def ascii_def)

lemma wav_header_sizes:
  "n \<le> 4294967259 \<Longrightarrow> readUInt32LE 4 (wav_header n @ pcm) = 36 + n"
  "n \<le> 4294967259 \<Longrightarrow> readUInt32LE 40 (wav_header n @ pcm) = n"
  by (simp_all add: readUInt32LE_def wav_header_def le_value_le_bytes ascii_def)

lemma wav_header_format:
  "readUInt32LE 16 (wav_header n @ pcm) = 16"
  "readUInt16LE 20 (wav_header n @ pcm) = 1"
  "readUInt16LE 22 (wav_header n @ pcm) = 2"
  "readUInt32LE 24 (wav_header n @ pcm) = 48000"
  "readUInt32LE 28 (wav_header n @ pcm) = 192000"
  "readUInt16LE 32 (wav_header n @ pcm) = 4"
  "readUInt16LE 34 (wav_header n @ pcm) = 16"
  by (simp_all add: readUInt32LE_def readUInt16LE_def wav_header_def le_value_le_bytes ascii_def)

text \<open>
  C9, as amended. For every PCM buffer of \<open>N \<le> 4294967259\<close> bytes (so that \<open>36 + N\<close> fits
  the 32-bit size field) \<^verbatim>\<open>buildWavBuffer\<close> returns a buffer of exactly \<open>44 + N\<close> bytes: a
  44-byte header with "RIFF", chunk size \<open>36 + N\<close>, "WAVE", "fmt " with subchunk size 16,
  format tag 1, channel count 2, sample rate 48000, byte rate 192000, block align 4, bit
  depth 16, "data" and the declared payload length \<open>N\<close>, followed by the payload unchanged.
\<close>

theorem buildWavBuffer_container:
  assumes "length pcm \<le> 4294967259"
  shows "\<exists>out. buildWavBuffer pcm = Inr out \<and>
           length out = 44 + length pcm \<and>
           subarray 0 4 out = ascii ''RIFF'' \<and>
           readUInt32LE 4 out = 36 + length pcm \<and>
           subarray 8 4 out = ascii ''WAVE'' \<and>
           subarray 12 4 out = ascii ''fmt '' \<and>
           readUInt32LE 16 out = 16 \<and>
           readUInt16LE 20 out = 1 \<and>
           readUInt16LE 22 out = 2 \<and>
           readUInt32LE 24 out = 48000 \<and>
           readUInt32LE 28 out = 192000 \<and>
           readUInt16LE 32 out = 4 \<and>
           readUInt16LE 34 out = 16 \<and>
           subarray 36 4 out = ascii ''data'' \<and>
           readUInt32LE 40 out = length pcm \<and>
           drop 44 out = pcm"
proof -
  let ?out = "wav_header (length pcm) @ pcm"
  have "buildWavBuffer pcm = Inr ?out"
    using assms by (rule buildWavBuffer_Inr)
  moreover have "length ?out = 44 + length pcm" "drop 44 ?out = pcm"
    by (simp_all add: length_wav_header)
  ultimately show ?thesis
    using assms
    by (intro exI [of _ ?out])
      (simp add: wav_header_strings wav_header_sizes wav_header_format)
qed

theorem buildWavBuffer_container_witness:
  "length [1, 2, 3 :: byte] \<le> 4294967259 \<and>
   (\<exists>out. buildWavBuffer [1, 2, 3] = Inr out \<and> length out = 47 \<and>
      readUInt32LE 40 out = 3 \<and> drop 44 out = [1, 2, 3])"
proof -
  have h: "length [1, 2, 3 :: byte] \<le> 4294967259"
    by simp
  show ?thesis
    using h buildWavBuffer_container [OF h] by auto
qed

text \<open>
  C9 as stated fails for a payload of 4294967260 bytes: the chunk size \<open>36 + N\<close> is
  \<open>2 ^ 32\<close>, \<^verbatim>\<open>writeUInt32LE\<close> raises and no buffer is returned.
\<close>

theorem buildWavBuffer_counterexample:
  "buildWavBuffer (replicate 4294967260 0) = Inl RangeError"
  by (simp add: buildWavBuffer_Inl)

section \<open>Queues\<close>

lemma settle_enqueueProcessing_all:
  "settle r (processingQueue e) = (tr, Fulfilled) \<Longrightarrow>
   settle r (processingQueue (foldl enqueueProcessing e ts)) =
     (tr @ concat (map (task_events r ''discord voice: processing failed: '') ts), Fulfilled)"
proof (induction ts arbitrary: e tr)
  case Nil
  then show ?case by simp
next
  case (Cons t ts)
  have "settle r (processingQueue (enqueueProcessing e t)) =
          (tr @ task_events r ''discord voice: processing failed: '' t, Fulfilled)"
    using Cons.prems by (simp add: enqueueProcessing_def task_events_def)
  from Cons.IH [OF this] show ?case by simp
qed

lemma settle_enqueuePlayback_all:
  "settle r (playbackQueue e) = (tr, Fulfilled) \<Longrightarrow>
   settle r (playbackQueue (foldl enqueuePlayback e ts)) =
     (tr @ concat (map (task_events r ''discord voice: playback failed: '') ts), Fulfilled)"
proof (induction ts arbitrary: e tr)
  case Nil
  then show ?case by simp
next
  case (Cons t ts)
  have "settle r (playbackQueue (enqueuePlayback e t)) =
          (tr @ task_events r ''discord voice: playback failed: '' t, Fulfilled)"
    using Cons.prems by (simp add: enqueuePlayback_def task_events_def)
  from Cons.IH [OF this] show ?case by simp
qed

section \<open>Capture\<close>

lemma estimateDurationSeconds_eq: "estimateDurationSeconds pcm = of_nat (length pcm) / 192000"
  by (simp add: estimateDurationSeconds_def BIT_DEPTH_def CHANNELS_def SAMPLE_RATE_def)

lemma short_iff: "estimateDurationSeconds pcm < MIN_SEGMENT_SECONDS \<longleftrightarrow> length pcm < 67200"
  by (simp add: estimateDurationSeconds_eq MIN_SEGMENT_SECONDS_def divide_less_eq) 

lemma captureEnd_short:
  "estimateDurationSeconds (decodeOpusStream (decode cenv) (stream cenv)) < MIN_SEGMENT_SECONDS \<Longrightarrow>
   processingQueue (snd (captureEnd cenv user entry)) = processingQueue entry"
  by (simp add: captureEnd_def writeWavFile_def Let_def
      split: sum.splits option.splits prod.splits if_splits)

lemma captureEnd_clears: "user \<notin> activeSpeakers (snd (captureEnd cenv user entry))"
  by (simp add: captureEnd_def Let_def split: sum.splits option.splits prod.splits)


section \<open>The registry\<close>

lemma trim_idem: "trim (trim s) = trim s"
proof -
  let ?a = "dropWhile isWhiteSpace s"
  let ?b = "rev (dropWhile isWhiteSpace (rev ?a))"
  have b: "dropWhile isWhiteSpace ?b = ?b"
  proof (cases "?b")
    case Nil
    show ?thesis unfolding Nil by simp
  next
    case (Cons x xs)
    have "?a \<noteq> []"
    proof
      assume h: "?a = []"
      have "?b = []" unfolding h by simp
      then show False using Cons by simp
    qed
    then have ha: "\<not> isWhiteSpace (hd ?a)"
      using hd_dropWhile by blast
    obtain k where "?b = take k ?a"
      by (metis dropWhile_eq_drop rev_drop rev_rev_ident rev_take) 
    then have "hd ?b = hd ?a" using Cons
      by (metis hd_take list.discI take_eq_Nil gr0I) 
    then have "\<not> isWhiteSpace x" using ha Cons by simp
    then show ?thesis unfolding Cons by simp
  qed
  have "trim (trim s) = rev (dropWhile isWhiteSpace (rev (dropWhile isWhiteSpace ?b)))"
    by (simp add: trim_def)
  also have "\<dots> = rev (dropWhile isWhiteSpace (rev ?b))"
    by (simp only: b)
  also have "\<dots> = ?b"
    by simp
  finally show ?thesis by (simp add: trim_def)
qed


lemma player_stop_fields [simp]:
  "sessions (player_stop pid force m) = sessions m"
  "connections (player_stop pid force m) = connections m"
  "next_connection (player_stop pid force m) = next_connection m"
  "next_player (player_stop pid force m) = next_player m"
  "voiceEnabled (player_stop pid force m) = voiceEnabled m"
  "botUserId (player_stop pid force m) = botUserId m"
  by (simp_all add: player_stop_def)

lemma player_play_fields [simp]:
  "sessions (player_play pid path m) = sessions m"
  "connections (player_play pid path m) = connections m"
  "next_connection (player_play pid path m) = next_connection m"
  "next_player (player_play pid path m) = next_player m"
  "voiceEnabled (player_play pid path m) = voiceEnabled m"
  "botUserId (player_play pid path m) = botUserId m"
  by (simp_all add: player_play_def)

lemma connection_destroy_fields [simp]:
  "sessions (connection_destroy cid m) =
     (if listening (connections m cid)
      then AList.delete (conn_guildId (connections m cid)) (sessions m) else sessions m)"
  "connections (connection_destroy cid m) =
     (connections m)(cid := (connections m cid)\<lparr>destroyed := True\<rparr>)"
  "next_connection (connection_destroy cid m) = next_connection m"
  "next_player (connection_destroy cid m) = next_player m"
  "players (connection_destroy cid m) = players m"
  "voiceEnabled (connection_destroy cid m) = voiceEnabled m"
  "botUserId (connection_destroy cid m) = botUserId m"
  by (simp_all add: connection_destroy_def Let_def)

lemma stop_fields [simp]:
  "sessions (stop e m) =
     (if listening (connections m (connection e))
      then AList.delete (conn_guildId (connections m (connection e))) (sessions m) else sessions m)"
  "connections (stop e m) =
     (connections m)(connection e := (connections m (connection e))\<lparr>destroyed := True\<rparr>)"
  "next_connection (stop e m) = next_connection m"
  "next_player (stop e m) = next_player m"
  "voiceEnabled (stop e m) = voiceEnabled m"
  "botUserId (stop e m) = botUserId m"
  by (simp_all add: stop_def)

lemma stop_calls:
  "calls (players (stop e m) (player e)) = calls (players m (player e)) @ [Stop False]"
  by (simp add: stop_def player_stop_def)








lemma leave_None:
  "map_of (sessions m) (trim g) = None \<Longrightarrow>
   leave g c m = (failure ''Not connected to a voice channel.'', m)"
  by (simp add: leave_def)

lemma leave_mismatch:
  "map_of (sessions m) (trim g) = Some e \<Longrightarrow> truthy c \<Longrightarrow> c \<noteq> Some (channelId e) \<Longrightarrow>
   leave g c m = (failure ''Not connected to that voice channel.'', m)"
  by (simp add: leave_def)

lemma leave_success:
  "map_of (sessions m) (trim g) = Some e \<Longrightarrow> \<not> truthy c \<or> c = Some (channelId e) \<Longrightarrow>
   leave g c m =
     (\<lparr>ok = True, message = ''Left <#'' @ channelId e @ ''>.'',
       res_channelId = Some (channelId e), res_guildId = Some (trim g)\<rparr>,
      (stop e m)\<lparr>sessions := AList.delete (trim g) (sessions (stop e m))\<rparr>)"
  by (auto simp: leave_def Let_def)





lemma establish_rejected:
  "rejection env g c = Some msg \<Longrightarrow> establish env g c m = (failure msg, m)"
  by (auto simp: rejection_def establish_def split: option.splits if_splits)


lemma establish_registered:
  "rejection env g c = None \<Longrightarrow> entersReady env g c = None \<Longrightarrow>
   establish env g c m =
     (\<lparr>ok = True, message = ''Joined <#'' @ c @ ''>.'', res_channelId = Some c,
       res_guildId = Some g\<rparr>, registered env g c m)"
  by (auto simp: rejection_def establish_def registered_def new_entry_def Let_def
      split: option.splits if_splits)



lemma leave_removes: "map_of (sessions (snd (leave g c' m))) (trim g) = None"
  if "\<not> truthy c'" for c'
proof (cases "map_of (sessions m) (trim g)")
  case None
  then show ?thesis by (simp add: leave_None)
next
  case (Some e)
  then show ?thesis using that by (simp add: leave_success delete_conv')
qed

lemma leave_voiceEnabled: "voiceEnabled (snd (leave g c m)) = voiceEnabled m"
  by (auto simp: leave_def Let_def split: option.splits)




lemma foldl_stop_fields:
  "next_connection (foldl (\<lambda>m' entry. stop entry m') m es) = next_connection m"
  "next_player (foldl (\<lambda>m' entry. stop entry m') m es) = next_player m"
  "voiceEnabled (foldl (\<lambda>m' entry. stop entry m') m es) = voiceEnabled m"
  by (induction es arbitrary: m) simp_all












lemma speakingStart_same:
  assumes "speakingStart user e m = (r, e', m')"
  shows "guildId e' = guildId e \<and> channelId e' = channelId e \<and>
         connection e' = connection e \<and> player e' = player e \<and>
         (m' = m \<or> m' = player_stop (player e) True m)"
  using assms by (auto simp: speakingStart_def Let_def split: if_splits)

lemma captureEnd_same:
  assumes "captureEnd cenv user e = (r, e')"
  shows "guildId e' = guildId e \<and> channelId e' = channelId e \<and>
         connection e' = connection e \<and> player e' = player e"
  using assms
  by (auto simp: captureEnd_def enqueueProcessing_def Let_def
      split: if_splits sum.splits prod.splits)

lemma processSegment_same:
  assumes "processSegment penv params e = (r, e', ws)"
  shows "guildId e' = guildId e \<and> channelId e' = channelId e \<and>
         connection e' = connection e \<and> player e' = player e"
  using assms
  by (auto simp: processSegment_def enqueuePlayback_def Let_def
      split: if_splits outcome.splits option.splits)





lemma registry_basic_distinct: "registry_basic m \<Longrightarrow> distinct (map fst (sessions m))"
  by (simp add: registry_basic_def)

lemma registry_basic_enabled: "registry_basic m \<Longrightarrow> sessions m \<noteq> [] \<Longrightarrow> voiceEnabled m"
  by (simp add: registry_basic_def)

lemma registry_basic_entry:
  "registry_basic m \<Longrightarrow> map_of (sessions m) g = Some e \<Longrightarrow>
   guildId e = g \<and> g \<noteq> [] \<and> trim g = g \<and> channelId e \<noteq> [] \<and>
   trim (channelId e) = channelId e"
  by (simp add: registry_basic_def)




lemma trim_samples [simp]:
  "trim ''g1'' = ''g1''" "trim ''c1'' = ''c1''" "trim ''c2'' = ''c2''" "trim ''t1'' = ''t1''"
  "trim ''c9'' = ''c9''" "trim '' '' = []" "trim [] = []"
  by (simp_all add: trim_def isWhiteSpace_def)

lemma sample_rejections:
  "rejection sample_env ''g1'' ''c1'' = None"
  "rejection sample_env ''g1'' ''c2'' = None"
  "rejection sample_env ''g1'' ''t1'' = Some ''Channel t1 is not a voice channel.''"
  "rejection sample_env ''g1'' ''c9'' = Some ''Voice channel is not in this guild.''"
  "rejection sample_env_gone ''g1'' ''c1'' = Some ''Channel c1 is not a voice channel.''"
  by (simp_all add: rejection_def sample_env_def sample_env_gone_def isVoiceChannel_def
      GuildVoice_def GuildStageVoice_def)

lemma sample_manager_fields [simp]:
  "voiceEnabled sample_manager" "sessions sample_manager = []"
  "next_connection sample_manager = 0" "next_player sample_manager = 0"
  "botUserId sample_manager = Some ''bot''"
  by (simp_all add: sample_manager_def new_manager_def)

lemma sample_joined_eq:
  "sample_joined = registered sample_env ''g1'' ''c1'' sample_manager"
proof -
  have "join sample_env ''g1'' ''c1'' sample_manager =
          establish sample_env ''g1'' ''c1'' sample_manager"
    by (simp add: join_def Let_def)
  moreover have "entersReady sample_env ''g1'' ''c1'' = None"
    by (simp add: sample_env_def)
  ultimately show ?thesis
    by (simp add: sample_joined_def establish_registered sample_rejections)
qed

lemma new_entry_sample: "new_entry sample_env ''g1'' ''c1'' sample_manager = sample_entry"
  by (simp add: new_entry_def sample_entry_def sample_env_def)

lemma sample_joined_fields [simp]:
  "voiceEnabled sample_joined" "sessions sample_joined = [(''g1'', sample_entry)]"
  "next_connection sample_joined = 1" "next_player sample_joined = 1"
  "\<not> destroyed (connections sample_joined 0)" "listening (connections sample_joined 0)"
  "conn_guildId (connections sample_joined 0) = ''g1''"
  "calls (players sample_joined 0) = []"
  by (simp_all add: sample_joined_eq registered_def new_entry_sample)

lemma sequential_sample_manager: "sequential sample_manager"
  unfolding sample_manager_def by (rule sequential.constructed)

lemma sequential_sample_joined: "sequential sample_joined"
  unfolding sample_joined_def by (rule sequential.joined [OF sequential_sample_manager])




lemma mentions_prefix: "mentions (n @ b) n"
proof (cases "n @ b")
  case Nil
  then show ?thesis by simp
next
  case (Cons x xs)
  have "take (length n) (n @ b) = n" by simp
  then have "mentions (x # xs) n" unfolding Cons by simp
  then show ?thesis unfolding Cons .
qed

lemma mentions_mid: "mentions (a @ n @ b) n"
proof (induction a)
  case Nil
  show ?case using mentions_prefix [of n b] by simp
next
  case (Cons x a)
  then show ?case by simp
qed

lemma trim_Nil_iff: "trim s = [] \<longleftrightarrow> (\<forall>c \<in> set s. isWhiteSpace c)"
proof -
  let ?a = "dropWhile isWhiteSpace s"
  have "trim s = [] \<longleftrightarrow> (\<forall>c \<in> set ?a. isWhiteSpace c)"
    by (simp add: trim_def dropWhile_eq_Nil_conv)
  also have "\<dots> \<longleftrightarrow> ?a = []"
  proof
    assume all: "\<forall>c \<in> set ?a. isWhiteSpace c"
    show "?a = []"
    proof (rule ccontr)
      assume ne: "?a \<noteq> []"
      then have "\<not> isWhiteSpace (hd ?a)" using hd_dropWhile by blast
      moreover have "hd ?a \<in> set ?a" using ne by simp
      ultimately show False using all by blast
    qed
  next
    assume h: "?a = []"
    show "\<forall>c \<in> set ?a. isWhiteSpace c" unfolding h by simp
  qed
  also have "\<dots> \<longleftrightarrow> (\<forall>c \<in> set s. isWhiteSpace c)"
    by (simp add: dropWhile_eq_Nil_conv)
  finally show ?thesis .
qed

lemma join_guarded:
  assumes "voiceEnabled m" "trim guild \<noteq> []" "trim channel \<noteq> []"
    and "\<forall>entry. map_of (sessions m) (trim guild) = Some entry \<longrightarrow> channelId entry \<noteq> trim channel"
  obtains m1 where "join env guild channel m = establish env (trim guild) (trim channel) m1"
    "map_of (sessions m1) (trim guild) = None"
proof (cases "map_of (sessions m) (trim guild)")
  case None
  then have "join env guild channel m = establish env (trim guild) (trim channel) m"
    using assms by (simp add: join_def Let_def)
  then show ?thesis using None that by blast
next
  case (Some e)
  let ?m1 = "snd (leave (trim guild) None m)"
  have "join env guild channel m = establish env (trim guild) (trim channel) ?m1"
    using assms Some by (simp add: join_def Let_def)
  moreover have "map_of (sessions ?m1) (trim guild) = None"
    using leave_removes [of None "trim guild" m] by (simp add: truthy_def trim_idem)
  ultimately show ?thesis using that by blast
qed


subsection \<open>Overlapping runs\<close>

lemma establish_phases:
  "establish env guild channel m =
     (case join_fetched env guild channel m of
        (Inl r, m') \<Rightarrow> (r, m')
      | (Inr cid, m') \<Rightarrow> join_ready env guild channel cid m')"
  by (simp add: establish_def join_fetched_def join_ready_def Let_def split: option.splits)

lemma join_phases:
  "join env guildId0 channelId0 m =
     (case join_start guildId0 channelId0 m of
        (Inl r, m') \<Rightarrow> (r, m')
      | (Inr (guild, channel), m') \<Rightarrow> establish env guild channel m')"
  by (simp add: join_def join_start_def Let_def)

lemma join_start_Inl: "join_start g c m = (Inl r, m') \<Longrightarrow> m' = m"
  by (auto simp: join_start_def Let_def split: if_splits)

lemma join_start_Inr:
  "join_start guildId0 channelId0 m = (Inr (g, c), m') \<Longrightarrow>
   voiceEnabled m \<and> g = trim guildId0 \<and> c = trim channelId0 \<and> g \<noteq> [] \<and> c \<noteq> [] \<and>
   (m' = m \<or> m' = snd (leave g None m))"
  by (auto simp: join_start_def Let_def split: if_splits option.splits)

lemma join_fetched_Inl: "join_fetched env g c m = (Inl r, m') \<Longrightarrow> m' = m"
  by (auto simp: join_fetched_def Let_def split: if_splits option.splits)

lemma join_fetched_Inr:
  "join_fetched env g c m = (Inr cid, m') \<Longrightarrow>
   cid = next_connection m \<and>
   m' = m\<lparr>connections := (connections m)
            (cid := \<lparr>conn_guildId = g, conn_channelId = c,
                     destroyed = False, subscribed = None, listening = False\<rparr>),
          next_connection := Suc cid\<rparr>"
  by (auto simp: join_fetched_def Let_def split: if_splits option.splits)

lemma connections_ok_frame:
  assumes "connections_ok m" "voiceEnabled m' = voiceEnabled m"
    "next_connection m' = next_connection m"
    "\<And>cid. conn_guildId (connections m' cid) = conn_guildId (connections m cid)"
    "\<And>cid. conn_channelId (connections m' cid) = conn_channelId (connections m cid)"
  shows "connections_ok m'"
  using assms(1) unfolding connections_ok_def assms(2-) .

lemma registry_basic_sub:
  assumes ok: "registry_basic m" and en: "voiceEnabled m' = voiceEnabled m"
    and d: "distinct (map fst (sessions m'))"
    and sub: "\<And>g e. map_of (sessions m') g = Some e \<Longrightarrow> map_of (sessions m) g = Some e"
  shows "registry_basic m'"
proof -
  have "voiceEnabled m'" if "sessions m' \<noteq> []"
  proof -
    from that obtain g e where "(g, e) \<in> set (sessions m')"
      by (cases "sessions m'") auto
    then have "map_of (sessions m') g = Some e" using d by simp
    then have "map_of (sessions m) g = Some e" by (rule sub)
    then have "sessions m \<noteq> []" by auto
    then show ?thesis using registry_basic_enabled [OF ok] en by simp
  qed
  moreover have "guildId e = g \<and> g \<noteq> [] \<and> trim g = g \<and> channelId e \<noteq> [] \<and>
      trim (channelId e) = channelId e" if "map_of (sessions m') g = Some e" for g e
    using registry_basic_entry [OF ok sub [OF that]] .
  ultimately show ?thesis using d unfolding registry_basic_def by blast
qed

lemma registry_basic_update:
  assumes ok: "registry_basic m" and en: "voiceEnabled m'"
    and s: "sessions m' = AList.update g e (sessions m)"
    and e: "guildId e = g" "g \<noteq> []" "trim g = g" "channelId e \<noteq> []"
      "trim (channelId e) = channelId e"
  shows "registry_basic m'"
proof -
  have d: "distinct (map fst (sessions m'))"
    using registry_basic_distinct [OF ok] by (simp add: s distinct_update)
  have "guildId x = g' \<and> g' \<noteq> [] \<and> trim g' = g' \<and> channelId x \<noteq> [] \<and>
      trim (channelId x) = channelId x" if a: "map_of (sessions m') g' = Some x" for g' x
  proof (cases "g' = g")
    case True
    then have "x = e" using a by (simp add: s update_conv')
    then show ?thesis using e True by simp
  next
    case False
    then have "map_of (sessions m) g' = Some x" using a by (simp add: s update_conv')
    from registry_basic_entry [OF ok this] show ?thesis .
  qed
  then show ?thesis using d en unfolding registry_basic_def by blast
qed

lemma map_of_delete_Some:
  "map_of (AList.delete k al) g = Some e \<Longrightarrow> map_of al g = Some e"
  by (simp add: delete_conv' split: if_splits)

lemma registry_basic_leave:
  assumes ok: "registry_basic m"
  shows "registry_basic (snd (leave g c m))"
proof (rule registry_basic_sub [OF ok])
  show "voiceEnabled (snd (leave g c m)) = voiceEnabled m" by (rule leave_voiceEnabled)
  show "distinct (map fst (sessions (snd (leave g c m))))"
    using registry_basic_distinct [OF ok]
    by (simp add: leave_def Let_def distinct_delete split: option.splits)
  show "map_of (sessions (snd (leave g c m))) g' = Some e \<Longrightarrow> map_of (sessions m) g' = Some e"
    for g' e
    by (auto simp: leave_def Let_def delete_conv' split: option.splits if_splits)
qed

lemma connections_ok_leave:
  assumes ok: "connections_ok m"
  shows "connections_ok (snd (leave g c m))"
  by (rule connections_ok_frame [OF ok])
    (simp_all add: leave_def Let_def split: option.splits)

lemma registry_basic_frame:
  assumes "registry_basic m" "sessions m' = sessions m" "voiceEnabled m' = voiceEnabled m"
  shows "registry_basic m'"
  using assms(1) unfolding registry_basic_def assms(2-) .

lemma waiting_ok_frame:
  assumes "waiting_ok m waiting" "voiceEnabled m' = voiceEnabled m" "set waiting' \<subseteq> set waiting"
  shows "waiting_ok m' waiting'"
  using assms unfolding waiting_ok_def by blast

lemma foldl_stop_conn_ids:
  "conn_guildId (connections (foldl (\<lambda>m' entry. stop entry m') m es) cid) =
     conn_guildId (connections m cid)"
  "conn_channelId (connections (foldl (\<lambda>m' entry. stop entry m') m es) cid) =
     conn_channelId (connections m cid)"
  by (induction es arbitrary: m) simp_all

lemma registry_basic_destroy: "registry_basic m \<Longrightarrow> registry_basic (destroy m)"
  by (simp add: registry_basic_def destroy_def)

lemma connections_ok_destroy:
  assumes ok: "connections_ok m"
  shows "connections_ok (destroy m)"
  by (rule connections_ok_frame [OF ok])
    (simp_all add: destroy_def foldl_stop_fields foldl_stop_conn_ids)

lemma registry_basic_onDisconnected:
  assumes ok: "registry_basic m"
  shows "registry_basic (onDisconnected recovered cid m)"
proof (rule registry_basic_sub [OF ok])
  show "voiceEnabled (onDisconnected recovered cid m) = voiceEnabled m"
    by (simp add: onDisconnected_def)
  show "distinct (map fst (sessions (onDisconnected recovered cid m)))"
    using registry_basic_distinct [OF ok]
    by (simp add: onDisconnected_def distinct_delete)
  show "map_of (sessions (onDisconnected recovered cid m)) g' = Some e \<Longrightarrow>
        map_of (sessions m) g' = Some e" for g' e
    by (auto simp: onDisconnected_def delete_conv' split: if_splits)
qed

lemma connections_ok_onDisconnected:
  assumes ok: "connections_ok m"
  shows "connections_ok (onDisconnected recovered cid m)"
  by (rule connections_ok_frame [OF ok]) (simp_all add: onDisconnected_def)

lemma registry_basic_store_entry:
  assumes ok: "registry_basic m"
    and e: "map_of (sessions m) g = Some e"
    and same: "guildId e' = guildId e" "channelId e' = channelId e"
  shows "registry_basic (store_entry g e' m)"
proof (rule registry_basic_update [OF ok])
  have "sessions m \<noteq> []" using e by auto
  then show "voiceEnabled (store_entry g e' m)"
    using registry_basic_enabled [OF ok] by (simp add: store_entry_def)
  show "sessions (store_entry g e' m) = AList.update g e' (sessions m)"
    by (simp add: store_entry_def)
  show "guildId e' = g" "g \<noteq> []" "trim g = g" "channelId e' \<noteq> []"
    "trim (channelId e') = channelId e'"
    using registry_basic_entry [OF ok e] same by simp_all
qed

lemma connections_ok_store_entry:
  assumes ok: "connections_ok m"
  shows "connections_ok (store_entry g e' m)"
  by (rule connections_ok_frame [OF ok]) (simp_all add: store_entry_def)

lemma registry_basic_join_fetched:
  "registry_basic m \<Longrightarrow> registry_basic (snd (join_fetched env g c m))"
  by (erule registry_basic_frame)
    (simp_all add: join_fetched_def Let_def split: option.splits)

lemma connections_ok_join_fetched:
  assumes ok: "connections_ok m" and en: "voiceEnabled m"
    and ids: "g \<noteq> []" "trim g = g" "c \<noteq> []" "trim c = c"
  shows "connections_ok (snd (join_fetched env g c m))"
proof (cases "fst (join_fetched env g c m)")
  case (Inl r)
  then have "join_fetched env g c m = (Inl r, snd (join_fetched env g c m))"
    by (metis prod.collapse)
  from join_fetched_Inl [OF this] show ?thesis using ok by simp
next
  case (Inr cid)
  then have "join_fetched env g c m = (Inr cid, snd (join_fetched env g c m))"
    by (metis prod.collapse)
  from join_fetched_Inr [OF this] obtain m' where
    m': "snd (join_fetched env g c m) = m'"
    "m' = m\<lparr>connections := (connections m)
            (next_connection m := \<lparr>conn_guildId = g, conn_channelId = c,
                     destroyed = False, subscribed = None, listening = False\<rparr>),
          next_connection := Suc (next_connection m)\<rparr>"
    by blast
  have "connections_ok m'"
    unfolding connections_ok_def
  proof (intro allI impI)
    fix cid assume lt: "cid < next_connection m'"
    show "voiceEnabled m' \<and>
        conn_guildId (connections m' cid) \<noteq> [] \<and>
        trim (conn_guildId (connections m' cid)) = conn_guildId (connections m' cid) \<and>
        conn_channelId (connections m' cid) \<noteq> [] \<and>
        trim (conn_channelId (connections m' cid)) = conn_channelId (connections m' cid)"
    proof (cases "cid = next_connection m")
      case True
      then show ?thesis using en ids by (simp add: m'(2))
    next
      case False
      then have "cid < next_connection m" using lt by (simp add: m'(2))
      then show ?thesis using ok False unfolding connections_ok_def by (simp add: m'(2))
    qed
  qed
  then show ?thesis by (simp add: m'(1))
qed

lemma join_ready_cases:
  "snd (join_ready env g c cid m) = connection_destroy cid m \<or>
   (\<exists>entry m2. guildId entry = g \<and> channelId entry = c \<and>
      voiceEnabled m2 = voiceEnabled m \<and> sessions m2 = sessions m \<and>
      next_connection m2 = next_connection m \<and>
      (\<forall>k. conn_guildId (connections m2 k) = conn_guildId (connections m k)) \<and>
      (\<forall>k. conn_channelId (connections m2 k) = conn_channelId (connections m k)) \<and>
      snd (join_ready env g c cid m) = m2\<lparr>sessions := AList.update g entry (sessions m2)\<rparr>)"
proof (cases "entersReady env g c")
  case (Some err)
  then show ?thesis by (simp add: join_ready_def)
next
  case None
  let ?pid = "next_player m"
  let ?entry = "\<lparr>guildId = g, channelId = c, route = resolveAgentRoute env g c,
      connection = cid, player = ?pid, playbackQueue = PromiseResolve,
      processingQueue = PromiseResolve, activeSpeakers = {}\<rparr>"
  let ?m2 = "m\<lparr>players := (players m)(?pid := \<lparr>player_status = Idle, calls = []\<rparr>),
                     next_player := Suc ?pid,
                     connections := (connections m)
                       (cid := (connections m cid)\<lparr>subscribed := Some ?pid, listening := True\<rparr>)\<rparr>"
  have "snd (join_ready env g c cid m) = ?m2\<lparr>sessions := AList.update g ?entry (sessions ?m2)\<rparr>"
    using None by (simp add: join_ready_def Let_def)
  moreover have "guildId ?entry = g \<and> channelId ?entry = c \<and>
      voiceEnabled ?m2 = voiceEnabled m \<and> sessions ?m2 = sessions m \<and>
      next_connection ?m2 = next_connection m \<and>
      (\<forall>k. conn_guildId (connections ?m2 k) = conn_guildId (connections m k)) \<and>
      (\<forall>k. conn_channelId (connections ?m2 k) = conn_channelId (connections m k))"
    by simp
  ultimately show ?thesis by blast
qed

lemma registry_basic_connection_destroy:
  assumes ok: "registry_basic m"
  shows "registry_basic (connection_destroy cid m)"
proof (rule registry_basic_sub [OF ok])
  show "voiceEnabled (connection_destroy cid m) = voiceEnabled m" by simp
  show "distinct (map fst (sessions (connection_destroy cid m)))"
    using registry_basic_distinct [OF ok] by (simp add: distinct_delete)
  show "map_of (sessions (connection_destroy cid m)) g' = Some e \<Longrightarrow>
        map_of (sessions m) g' = Some e" for g' e
    by (auto simp: delete_conv' split: if_splits)
qed

lemma connections_ok_connection_destroy:
  assumes ok: "connections_ok m"
  shows "connections_ok (connection_destroy cid m)"
  by (rule connections_ok_frame [OF ok]) simp_all

lemma registry_basic_join_ready:
  assumes ok: "registry_basic m" and en: "voiceEnabled m"
    and ids: "g \<noteq> []" "trim g = g" "c \<noteq> []" "trim c = c"
  shows "registry_basic (snd (join_ready env g c cid m))"
  using join_ready_cases [of env g c cid m]
proof (elim disjE exE conjE)
  assume "snd (join_ready env g c cid m) = connection_destroy cid m"
  then show ?thesis using registry_basic_connection_destroy [OF ok] by simp
next
  fix entry m2
  assume a: "guildId entry = g" "channelId entry = c" "voiceEnabled m2 = voiceEnabled m"
    "sessions m2 = sessions m"
    "snd (join_ready env g c cid m) = m2\<lparr>sessions := AList.update g entry (sessions m2)\<rparr>"
  have "registry_basic (m2\<lparr>sessions := AList.update g entry (sessions m2)\<rparr>)"
    by (rule registry_basic_update [OF ok, where g = g and e = entry])
      (simp_all add: a en ids)
  then show ?thesis by (simp add: a(5))
qed

lemma connections_ok_join_ready:
  assumes ok: "connections_ok m"
  shows "connections_ok (snd (join_ready env g c cid m))"
  using join_ready_cases [of env g c cid m]
proof (elim disjE exE conjE)
  assume "snd (join_ready env g c cid m) = connection_destroy cid m"
  then show ?thesis using connections_ok_connection_destroy [OF ok] by simp
next
  fix entry m2
  assume a: "voiceEnabled m2 = voiceEnabled m"
    "next_connection m2 = next_connection m"
    "\<forall>k. conn_guildId (connections m2 k) = conn_guildId (connections m k)"
    "\<forall>k. conn_channelId (connections m2 k) = conn_channelId (connections m k)"
    "snd (join_ready env g c cid m) = m2\<lparr>sessions := AList.update g entry (sessions m2)\<rparr>"
  have "connections_ok (m2\<lparr>sessions := AList.update g entry (sessions m2)\<rparr>)"
    by (rule connections_ok_frame [OF ok]) (simp_all add: a)
  then show ?thesis by (simp add: a(5))
qed

lemma join_ready_voiceEnabled:
  "voiceEnabled (snd (join_ready env g c cid m)) = voiceEnabled m"
  by (simp add: join_ready_def Let_def split: option.splits)

lemma join_fetched_voiceEnabled:
  "voiceEnabled (snd (join_fetched env g c m)) = voiceEnabled m"
  by (simp add: join_fetched_def Let_def split: option.splits)

lemma running_ok:
  "running m waiting \<Longrightarrow> registry_basic m \<and> connections_ok m \<and> waiting_ok m waiting"
proof (induction rule: running.induct)
  case (constructed voice botId)
  show ?case
    by (simp add: registry_basic_def connections_ok_def waiting_ok_def new_manager_def)
next
  case (join_returned m waiting guildId0 channelId0 r m')
  from join_start_Inl [OF join_returned.hyps(2)] show ?case
    using join_returned.IH by simp
next
  case (join_suspended m waiting guildId0 channelId0 guild channel m')
  note s = join_start_Inr [OF join_suspended.hyps(2)]
  from join_suspended.IH have b: "registry_basic m" and c: "connections_ok m"
    and w: "waiting_ok m waiting" by simp_all
  have en: "voiceEnabled m' = voiceEnabled m"
    using s leave_voiceEnabled [of guild None m] by auto
  have "registry_basic m'"
    using s b registry_basic_leave [of m guild None] by auto
  moreover have "connections_ok m'"
    using s c connections_ok_leave [of m guild None] by auto
  moreover have "waiting_ok m' (AwaitingChannel guild channel # waiting)"
    using s w en trim_idem unfolding waiting_ok_def by auto
  ultimately show ?case by simp
next
  case (channel_rejected m waiting guild channel env r m')
  from channel_rejected.IH have b: "registry_basic m" and c: "connections_ok m"
    and w: "waiting_ok m waiting" by simp_all
  from join_fetched_Inl [OF channel_rejected.hyps(3)] have "m' = m" .
  moreover have "waiting_ok m (remove1 (AwaitingChannel guild channel) waiting)"
    by (rule waiting_ok_frame [OF w]) (simp_all add: set_remove1_subset)
  ultimately show ?case using b c by simp
next
  case (channel_accepted m waiting guild channel env cid m')
  from channel_accepted.IH have b: "registry_basic m" and c: "connections_ok m"
    and w: "waiting_ok m waiting" by simp_all
  have m': "m' = snd (join_fetched env guild channel m)"
    using channel_accepted.hyps(3) by simp
  have "voiceEnabled m \<and> guild \<noteq> [] \<and> trim guild = guild \<and> channel \<noteq> [] \<and>
    trim channel = channel"
    using w channel_accepted.hyps(2) unfolding waiting_ok_def by blast
  then have ids: "voiceEnabled m" "guild \<noteq> []" "trim guild = guild" "channel \<noteq> []"
    "trim channel = channel" by simp_all
  have "registry_basic m'" unfolding m' by (rule registry_basic_join_fetched [OF b])
  moreover have "connections_ok m'" unfolding m'
    by (rule connections_ok_join_fetched [OF c ids])
  moreover have "waiting_ok m' (remove1 (AwaitingChannel guild channel) waiting)"
    unfolding m'
    by (rule waiting_ok_frame [OF w]) (simp_all add: set_remove1_subset join_fetched_voiceEnabled)
  ultimately show ?case by simp
next
  case (ready_settled m waiting cid env)
  from ready_settled.IH have b: "registry_basic m" and c: "connections_ok m"
    and w: "waiting_ok m waiting" by simp_all
  let ?g = "conn_guildId (connections m cid)"
  let ?c = "conn_channelId (connections m cid)"
  have "voiceEnabled m \<and> ?g \<noteq> [] \<and> trim ?g = ?g \<and> ?c \<noteq> [] \<and> trim ?c = ?c"
    using c ready_settled.hyps(2) unfolding connections_ok_def by blast
  then have ids: "voiceEnabled m" "?g \<noteq> []" "trim ?g = ?g" "?c \<noteq> []" "trim ?c = ?c"
    by simp_all
  have "registry_basic (snd (join_ready env ?g ?c cid m))"
    by (rule registry_basic_join_ready [OF b ids])
  moreover have "connections_ok (snd (join_ready env ?g ?c cid m))"
    by (rule connections_ok_join_ready [OF c])
  moreover have "waiting_ok (snd (join_ready env ?g ?c cid m)) waiting"
    by (rule waiting_ok_frame [OF w]) (simp_all add: join_ready_voiceEnabled)
  ultimately show ?case by simp
next
  case (left m waiting guild channelOpt)
  from left.IH have b: "registry_basic m" and c: "connections_ok m"
    and w: "waiting_ok m waiting" by simp_all
  have "waiting_ok (snd (leave guild channelOpt m)) waiting"
    by (rule waiting_ok_frame [OF w]) (simp_all add: leave_voiceEnabled)
  then show ?case
    using registry_basic_leave [OF b] connections_ok_leave [OF c] by simp
next
  case (destroyed_all m waiting)
  from destroyed_all.IH have b: "registry_basic m" and c: "connections_ok m"
    and w: "waiting_ok m waiting" by simp_all
  have "waiting_ok (destroy m) waiting"
    by (rule waiting_ok_frame [OF w]) (simp_all add: destroy_def foldl_stop_fields)
  then show ?case
    using registry_basic_destroy [OF b] connections_ok_destroy [OF c] by simp
next
  case (botUserIdSet m waiting newId)
  from botUserIdSet.IH have b: "registry_basic m" and c: "connections_ok m"
    and w: "waiting_ok m waiting" by simp_all
  have "registry_basic (setBotUserId newId m)"
    by (rule registry_basic_frame [OF b]) (simp_all add: setBotUserId_def)
  moreover have "connections_ok (setBotUserId newId m)"
    by (rule connections_ok_frame [OF c]) (simp_all add: setBotUserId_def)
  moreover have "waiting_ok (setBotUserId newId m) waiting"
    by (rule waiting_ok_frame [OF w]) (simp_all add: setBotUserId_def)
  ultimately show ?case by simp
next
  case (warned m waiting ws)
  from warned.IH have b: "registry_basic m" and c: "connections_ok m"
    and w: "waiting_ok m waiting" by simp_all
  have "registry_basic (m\<lparr>warnings := warnings m @ ws\<rparr>)"
    by (rule registry_basic_frame [OF b]) simp_all
  moreover have "connections_ok (m\<lparr>warnings := warnings m @ ws\<rparr>)"
    by (rule connections_ok_frame [OF c]) simp_all
  moreover have "waiting_ok (m\<lparr>warnings := warnings m @ ws\<rparr>) waiting"
    by (rule waiting_ok_frame [OF w]) simp_all
  ultimately show ?case by simp
next
  case (disconnected m waiting cid)
  then show ?case unfolding waiting_ok_def by simp
next
  case (reconnect_settled m waiting cid recovered)
  from reconnect_settled.IH have b: "registry_basic m" and c: "connections_ok m"
    and w: "waiting_ok m waiting" by simp_all
  have "waiting_ok (onDisconnected recovered cid m) (remove1 (AwaitingReconnect cid) waiting)"
    by (rule waiting_ok_frame [OF w]) (simp_all add: onDisconnected_def set_remove1_subset)
  then show ?case
    using registry_basic_onDisconnected [OF b] connections_ok_onDisconnected [OF c] by simp
next
  case (speaking m waiting guild entry user c entry' m')
  from speaking.IH have b: "registry_basic m" and co: "connections_ok m"
    and w: "waiting_ok m waiting" by simp_all
  from speakingStart_same [OF speaking.hyps(3)]
  have same: "guildId entry' = guildId entry" "channelId entry' = channelId entry"
    and m': "m' = m \<or> m' = player_stop (player entry) True m"
    by simp_all
  have f: "sessions m' = sessions m" "voiceEnabled m' = voiceEnabled m"
    "next_connection m' = next_connection m" "connections m' = connections m"
    using m' by auto
  have b': "registry_basic m'"
    by (rule registry_basic_frame [OF b]) (simp_all add: f)
  have c': "connections_ok m'"
    by (rule connections_ok_frame [OF co]) (simp_all add: f)
  have e: "map_of (sessions m') guild = Some entry" using speaking.hyps(2) by (simp add: f)
  have "waiting_ok (store_entry guild entry' m') waiting"
    by (rule waiting_ok_frame [OF w]) (simp_all add: store_entry_def f)
  then show ?case
    using registry_basic_store_entry [OF b' e same] connections_ok_store_entry [OF c'] by simp
next
  case (captured m waiting guild entry cenv user thrown entry')
  from captured.IH have b: "registry_basic m" and c: "connections_ok m"
    and w: "waiting_ok m waiting" by simp_all
  from captureEnd_same [OF captured.hyps(3)]
  have same: "guildId entry' = guildId entry" "channelId entry' = channelId entry" by simp_all
  have "waiting_ok (store_entry guild entry' m) waiting"
    by (rule waiting_ok_frame [OF w]) (simp_all add: store_entry_def)
  then show ?case
    using registry_basic_store_entry [OF b captured.hyps(2) same]
      connections_ok_store_entry [OF c] by simp
next
  case (processed m waiting guild entry penv params r entry' ws)
  from processed.IH have b: "registry_basic m" and c: "connections_ok m"
    and w: "waiting_ok m waiting" by simp_all
  let ?m = "m\<lparr>warnings := warnings m @ ws\<rparr>"
  from processSegment_same [OF processed.hyps(3)]
  have same: "guildId entry' = guildId entry" "channelId entry' = channelId entry" by simp_all
  have b': "registry_basic ?m"
    by (rule registry_basic_frame [OF b]) simp_all
  have c': "connections_ok ?m"
    by (rule connections_ok_frame [OF c]) simp_all
  have e: "map_of (sessions ?m) guild = Some entry" using processed.hyps(2) by simp
  have "waiting_ok (store_entry guild entry' ?m) waiting"
    by (rule waiting_ok_frame [OF w]) (simp_all add: store_entry_def)
  then show ?case
    using registry_basic_store_entry [OF b' e same] connections_ok_store_entry [OF c'] by simp
next
  case (played m waiting pid path)
  from played.IH have b: "registry_basic m" and c: "connections_ok m"
    and w: "waiting_ok m waiting" by simp_all
  have "registry_basic (player_play pid path m)"
    by (rule registry_basic_frame [OF b]) simp_all
  moreover have "connections_ok (player_play pid path m)"
    by (rule connections_ok_frame [OF c]) simp_all
  moreover have "waiting_ok (player_play pid path m) waiting"
    by (rule waiting_ok_frame [OF w]) simp_all
  ultimately show ?case by simp
next
  case (stopped m waiting pid force)
  from stopped.IH have b: "registry_basic m" and c: "connections_ok m"
    and w: "waiting_ok m waiting" by simp_all
  have "registry_basic (player_stop pid force m)"
    by (rule registry_basic_frame [OF b]) simp_all
  moreover have "connections_ok (player_stop pid force m)"
    by (rule connections_ok_frame [OF c]) simp_all
  moreover have "waiting_ok (player_stop pid force m) waiting"
    by (rule waiting_ok_frame [OF w]) simp_all
  ultimately show ?case by simp
next
  case (player_moved m waiting pid st)
  from player_moved.IH have b: "registry_basic m" and c: "connections_ok m"
    and w: "waiting_ok m waiting" by simp_all
  let ?m = "m\<lparr>players := (players m)(pid := (players m pid)\<lparr>player_status := st\<rparr>)\<rparr>"
  have "registry_basic ?m"
    by (rule registry_basic_frame [OF b]) simp_all
  moreover have "connections_ok ?m"
    by (rule connections_ok_frame [OF c]) simp_all
  moreover have "waiting_ok ?m waiting"
    by (rule waiting_ok_frame [OF w]) simp_all
  ultimately show ?case by simp
qed

lemma reachable_registry_basic: "reachable m \<Longrightarrow> registry_basic m"
  unfolding reachable_def using running_ok by blast

lemma running_join:
  assumes r: "running m waiting"
  shows "running (snd (join env guildId0 channelId0 m)) waiting"
proof (cases "join_start guildId0 channelId0 m")
  case (Pair x m1)
  show ?thesis
  proof (cases x)
    case (Inl res)
    then have "snd (join env guildId0 channelId0 m) = m1"
      using Pair by (simp add: join_phases)
    then show ?thesis
      using running.join_returned [OF r, of guildId0 channelId0 res m1] Pair Inl by simp
  next
    case (Inr gc)
    obtain g c where gc: "gc = (g, c)" by (cases gc)
    have s: "join_start guildId0 channelId0 m = (Inr (g, c), m1)"
      using Pair Inr gc by simp
    have j: "snd (join env guildId0 channelId0 m) = snd (establish env g c m1)"
      using s by (simp add: join_phases)
    have r1: "running m1 (AwaitingChannel g c # waiting)"
      by (rule running.join_suspended [OF r s])
    show ?thesis
    proof (cases "join_fetched env g c m1")
      case p: (Pair y m2)
      show ?thesis
      proof (cases y)
        case (Inl res)
        then have "snd (establish env g c m1) = m2" using p by (simp add: establish_phases)
        moreover have "running m2 (remove1 (AwaitingChannel g c) (AwaitingChannel g c # waiting))"
          using running.channel_rejected [OF r1, of g c env res m2] p Inl by simp
        ultimately show ?thesis using j by simp
      next
        case (Inr cid)
        have f: "join_fetched env g c m1 = (Inr cid, m2)" using p Inr by simp
        have e: "snd (establish env g c m1) = snd (join_ready env g c cid m2)"
          using f by (simp add: establish_phases)
        have "running m2 (remove1 (AwaitingChannel g c) (AwaitingChannel g c # waiting))"
          using running.channel_accepted [OF r1, of g c env cid m2] f by simp
        then have r2: "running m2 waiting" by simp
        from join_fetched_Inr [OF f] have
          c: "cid < next_connection m2" "\<not> listening (connections m2 cid)"
          "\<not> destroyed (connections m2 cid)" "conn_guildId (connections m2 cid) = g"
          "conn_channelId (connections m2 cid) = c"
          by simp_all
        from running.ready_settled [OF r2 c(1,2,3), of env]
        show ?thesis using j e c(4,5) by simp
      qed
    qed
  qed
qed

lemma running_autoJoin_loop:
  "running m waiting \<Longrightarrow> running (autoJoin_loop env entries seen m) waiting"
proof (induction env entries seen m rule: autoJoin_loop.induct)
  case (1 env seenGuilds m)
  then show ?case by simp
next
  case (2 env entryGuildId entryChannelId entries seenGuilds m)
  show ?case
    using "2.IH" "2.prems" running.warned [OF "2.prems"] running_join [OF "2.prems"]
    by (simp add: Let_def)
qed

lemma running_autoJoin: "running m waiting \<Longrightarrow> running (autoJoin env m) waiting"
  by (simp add: autoJoin_def running_autoJoin_loop)

lemma sequential_running: "sequential m \<Longrightarrow> running m []"
proof (induction rule: sequential.induct)
  case (constructed voice botId)
  show ?case by (rule running.constructed)
next
  case (joined m env guild channel)
  then show ?case by (simp add: running_join)
next
  case (left m guild channelOpt)
  then show ?case by (simp add: running.left)
next
  case (destroyed_all m)
  then show ?case by (simp add: running.destroyed_all)
next
  case (autoJoined m env)
  then show ?case by (simp add: running_autoJoin)
next
  case (botUserIdSet m newId)
  then show ?case by (simp add: running.botUserIdSet)
next
  case (disconnected m cid recovered)
  have "running m [AwaitingReconnect cid]"
    by (rule running.disconnected [OF disconnected.IH disconnected.hyps(2,3)])
  from running.reconnect_settled [OF this, of cid recovered] show ?case by simp
next
  case (speaking m guild entry user c entry' m')
  then show ?case using running.speaking by blast
next
  case (captured m guild entry cenv user thrown entry')
  then show ?case using running.captured by blast
next
  case (processed m guild entry penv params r entry' ws)
  then show ?case using running.processed by blast
next
  case (played m pid path)
  then show ?case by (simp add: running.played)
next
  case (stopped m pid force)
  then show ?case by (simp add: running.stopped)
next
  case (player_moved m pid st)
  then show ?case by (simp add: running.player_moved)
qed

lemma sequential_reachable: "sequential m \<Longrightarrow> reachable m"
  unfolding reachable_def using sequential_running by blast

lemma reachable_sample_manager: "reachable sample_manager"
  by (rule sequential_reachable [OF sequential_sample_manager])

lemma reachable_sample_joined: "reachable sample_joined"
  by (rule sequential_reachable [OF sequential_sample_joined])




lemma sample_fetched_fields [simp]:
  "next_connection sample_fetched = 2"
  "connections sample_fetched 0 =
     \<lparr>conn_guildId = ''g1'', conn_channelId = ''c1'', destroyed = False, subscribed = None,
      listening = False\<rparr>"
  "connections sample_fetched (Suc 0) =
     \<lparr>conn_guildId = ''g1'', conn_channelId = ''c2'', destroyed = False, subscribed = None,
      listening = False\<rparr>"
  "sessions sample_fetched = []" "next_player sample_fetched = 0"
  by (simp_all add: sample_fetched_def join_fetched_def sample_env_def isVoiceChannel_def
      GuildVoice_def GuildStageVoice_def Let_def)


lemma sample_overlapped_fields [simp]:
  "next_connection sample_overlapped = 2"
  "conn_guildId (connections sample_overlapped 0) = ''g1''"
  "conn_guildId (connections sample_overlapped (Suc 0)) = ''g1''"
  "conn_channelId (connections sample_overlapped 0) = ''c1''"
  "conn_channelId (connections sample_overlapped (Suc 0)) = ''c2''"
  "\<not> destroyed (connections sample_overlapped 0)"
  "\<not> destroyed (connections sample_overlapped (Suc 0))"
  "listening (connections sample_overlapped 0)"
  "listening (connections sample_overlapped (Suc 0))"
  "map fst (sessions sample_overlapped) = [''g1'']"
  "map (channelId \<circ> snd) (sessions sample_overlapped) = [''c2'']"
  "map (connection \<circ> snd) (sessions sample_overlapped) = [1]"
  by (simp_all add: sample_overlapped_def join_ready_def sample_env_def Let_def)



text \<open>
  The late \<^verbatim>\<open>Disconnected\<close> listener is among the runs: it deletes the registry key of the
  session that has replaced its own, whose connection stays alive without a registered
  session.
\<close>

lemma sample_rejoined_eq:
  "snd (join sample_env ''g1'' ''c2'' sample_joined) =
     registered sample_env ''g1'' ''c2'' (snd (leave ''g1'' None sample_joined))"
proof -
  have "join sample_env ''g1'' ''c2'' sample_joined =
          establish sample_env ''g1'' ''c2'' (snd (leave ''g1'' None sample_joined))"
    by (simp add: join_def Let_def sample_entry_def)
  moreover have "entersReady sample_env ''g1'' ''c2'' = None"
    by (simp add: sample_env_def)
  ultimately show ?thesis
    by (simp add: establish_registered sample_rejections)
qed

lemma sample_left_fields:
  "sessions (snd (leave ''g1'' None sample_joined)) = []"
  "next_connection (snd (leave ''g1'' None sample_joined)) = 1"
  "destroyed (connections (snd (leave ''g1'' None sample_joined)) 0)"
  "listening (connections (snd (leave ''g1'' None sample_joined)) 0)"
  "conn_guildId (connections (snd (leave ''g1'' None sample_joined)) 0) = ''g1''"
proof -
  have e: "map_of (sessions sample_joined) (trim ''g1'') = Some sample_entry" by simp
  have "\<not> truthy None \<or> None = Some (channelId sample_entry)" by (simp add: truthy_def)
  note l = leave_success [OF e this]
  show "sessions (snd (leave ''g1'' None sample_joined)) = []"
    "next_connection (snd (leave ''g1'' None sample_joined)) = 1"
    "destroyed (connections (snd (leave ''g1'' None sample_joined)) 0)"
    "listening (connections (snd (leave ''g1'' None sample_joined)) 0)"
    "conn_guildId (connections (snd (leave ''g1'' None sample_joined)) 0) = ''g1''"
    by (simp_all add: l sample_entry_def)
qed

lemma sample_stale_fields:
  "sessions (snd (join sample_env ''g1'' ''c2'' sample_joined)) \<noteq> []"
  "sessions sample_stale = []"
  "live_connections sample_stale ''g1'' = [1]"
proof -
  have "[0..<2] = [0, Suc 0]" by (simp add: upt_rec)
  then show "sessions (snd (join sample_env ''g1'' ''c2'' sample_joined)) \<noteq> []"
    "sessions sample_stale = []"
    "live_connections sample_stale ''g1'' = [1]"
    by (simp_all add: sample_stale_def sample_rejoined_eq registered_def sample_left_fields
        onDisconnected_def live_connections_def)
qed

lemma reachable_sample_stale: "reachable sample_stale"
proof -
  have "running sample_joined []"
    by (rule sequential_running [OF sequential_sample_joined])
  then have "running sample_joined [AwaitingReconnect 0]"
    by (rule running.disconnected) simp_all
  then have "running (snd (join sample_env ''g1'' ''c2'' sample_joined)) [AwaitingReconnect 0]"
    by (rule running_join)
  from running.reconnect_settled [OF this, of 0 False]
  show ?thesis unfolding reachable_def sample_stale_def by auto
qed


section \<open>Claims about the registry\<close>




text \<open>
  C3. When \<^verbatim>\<open>join\<close> is called for a guild whose session is already on that channel, it
  returns success and the whole state, registry and session included, is unchanged: no
  connection is created.
\<close>

theorem join_same_channel:
  assumes "reachable m" and "map_of (sessions m) guild = Some entry"
    and "channelId entry = channel"
  shows "join env guild channel m =
           (\<lparr>ok = True, message = ''Already connected to <#'' @ channel @ ''>.'',
             res_channelId = Some channel, res_guildId = Some guild\<rparr>, m)"
proof -
  note ok = reachable_registry_basic [OF assms(1)]
  note en = registry_basic_entry [OF ok assms(2)]
  have "sessions m \<noteq> []" using assms(2) by auto
  then have "voiceEnabled m" by (rule registry_basic_enabled [OF ok])
  then show ?thesis
    using en assms(2,3) by (simp add: join_def Let_def)
qed

theorem join_same_channel_witness:
  "reachable sample_joined \<and>
   map_of (sessions sample_joined) ''g1'' = Some sample_entry \<and>
   channelId sample_entry = ''c1'' \<and>
   join sample_env ''g1'' ''c1'' sample_joined =
     (\<lparr>ok = True, message = ''Already connected to <#c1>.'',
       res_channelId = Some ''c1'', res_guildId = Some ''g1''\<rparr>, sample_joined)"
proof -
  have h: "map_of (sessions sample_joined) ''g1'' = Some sample_entry"
    "channelId sample_entry = ''c1''"
    by (simp_all add: sample_entry_def)
  show ?thesis
    using h reachable_sample_joined
      join_same_channel [OF reachable_sample_joined h, of sample_env]
    by simp
qed

text \<open>
  C4, as amended. When voice is enabled, both identifiers are non-blank and the guild has
  no session on the requested channel already: a \<^verbatim>\<open>join\<close> on a channel that cannot be
  fetched, or whose type is not a voice type, returns a failure whose message mentions
  "not a voice channel"; a \<^verbatim>\<open>join\<close> on a voice channel (its type, where it carries one, is a
  voice type) that carries the non-empty id of another guild returns the failure "Voice
  channel is not in this guild."; both as results, not exceptions, and no session is
  registered for the guild when the call returns, nothing else having run meanwhile.
\<close>

theorem join_invalid_channel:
  assumes "voiceEnabled m" and "trim guild \<noteq> []" and "trim channel \<noteq> []"
    and "\<forall>entry. map_of (sessions m) (trim guild) = Some entry \<longrightarrow>
           channelId entry \<noteq> trim channel"
  shows "(fetchChannel env (trim channel) = None \<or>
          (\<exists>info ty. fetchChannel env (trim channel) = Some info \<and>
             channel_type info = Some ty \<and> \<not> isVoiceChannel ty) \<longrightarrow>
            \<not> ok (fst (join env guild channel m)) \<and>
            mentions (message (fst (join env guild channel m))) ''not a voice channel'' \<and>
            map_of (sessions (snd (join env guild channel m))) (trim guild) = None) \<and>
         (\<forall>info channelGuild.
            fetchChannel env (trim channel) = Some info \<and>
            (\<forall>ty. channel_type info = Some ty \<longrightarrow> isVoiceChannel ty) \<and>
            channel_guildId info = Some channelGuild \<and> channelGuild \<noteq> [] \<and>
            channelGuild \<noteq> trim guild \<longrightarrow>
              \<not> ok (fst (join env guild channel m)) \<and>
              message (fst (join env guild channel m)) = ''Voice channel is not in this guild.'' \<and>
              map_of (sessions (snd (join env guild channel m))) (trim guild) = None)"
proof -
  from join_guarded [OF assms, of env] obtain m1 where
    j: "join env guild channel m = establish env (trim guild) (trim channel) m1"
    and none: "map_of (sessions m1) (trim guild) = None"
    by blast
  have rejected: "\<not> ok (fst (join env guild channel m)) \<and>
      message (fst (join env guild channel m)) = msg \<and>
      map_of (sessions (snd (join env guild channel m))) (trim guild) = None"
    if "rejection env (trim guild) (trim channel) = Some msg" for msg
    using establish_rejected [OF that, of m1] j none by (simp add: failure_def)
  have a: "rejection env (trim guild) (trim channel) =
             Some (''Channel '' @ trim channel @ '' is not a voice channel.'')"
    if "fetchChannel env (trim channel) = None \<or>
          (\<exists>info ty. fetchChannel env (trim channel) = Some info \<and>
             channel_type info = Some ty \<and> \<not> isVoiceChannel ty)"
    using that by (auto simp: rejection_def)
  have b: "rejection env (trim guild) (trim channel) = Some ''Voice channel is not in this guild.''"
    if "fetchChannel env (trim channel) = Some info"
      "\<forall>ty. channel_type info = Some ty \<longrightarrow> isVoiceChannel ty"
      "channel_guildId info = Some channelGuild" "channelGuild \<noteq> []" "channelGuild \<noteq> trim guild"
    for info channelGuild
    using that by (auto simp: rejection_def split: option.splits)
  have m: "mentions (''Channel '' @ trim channel @ '' is not a voice channel.'') ''not a voice channel''"
    using mentions_mid [of "''Channel '' @ trim channel @ '' is ''" "''not a voice channel''" "''.''"]
    by simp
  show ?thesis
    using rejected [OF a] rejected [OF b] m by auto
qed

theorem join_invalid_channel_witness:
  "voiceEnabled sample_joined \<and> trim ''g1'' \<noteq> [] \<and> trim ''t1'' \<noteq> [] \<and>
   map_of (sessions sample_joined) (trim ''g1'') = Some sample_entry \<and>
   channelId sample_entry \<noteq> trim ''t1'' \<and>
   fetchChannel sample_env (trim ''t1'') =
     Some \<lparr>channel_type = Some 0, channel_guildId = Some ''g1''\<rparr> \<and>
   \<not> isVoiceChannel 0 \<and>
   \<not> ok (fst (join sample_env ''g1'' ''t1'' sample_joined)) \<and>
   mentions (message (fst (join sample_env ''g1'' ''t1'' sample_joined))) ''not a voice channel'' \<and>
   map_of (sessions (snd (join sample_env ''g1'' ''t1'' sample_joined))) (trim ''g1'') = None \<and>
   fetchChannel sample_env (trim ''c9'') =
     Some \<lparr>channel_type = Some GuildVoice, channel_guildId = Some ''g9''\<rparr> \<and>
   \<not> ok (fst (join sample_env ''g1'' ''c9'' sample_joined)) \<and>
   message (fst (join sample_env ''g1'' ''c9'' sample_joined)) =
     ''Voice channel is not in this guild.'' \<and>
   map_of (sessions (snd (join sample_env ''g1'' ''c9'' sample_joined))) (trim ''g1'') = None"
proof -
  have h: "voiceEnabled sample_joined" "trim ''g1'' \<noteq> []" "trim ''t1'' \<noteq> []"
    "trim ''c9'' \<noteq> []"
    "map_of (sessions sample_joined) (trim ''g1'') = Some sample_entry"
    "channelId sample_entry \<noteq> trim ''t1''" "channelId sample_entry \<noteq> trim ''c9''"
    by (simp_all add: sample_entry_def)
  have g: "\<forall>entry. map_of (sessions sample_joined) (trim ''g1'') = Some entry \<longrightarrow>
             channelId entry \<noteq> trim ''t1''"
    "\<forall>entry. map_of (sessions sample_joined) (trim ''g1'') = Some entry \<longrightarrow>
             channelId entry \<noteq> trim ''c9''"
    using h by simp_all
  have f: "fetchChannel sample_env (trim ''t1'') =
             Some \<lparr>channel_type = Some 0, channel_guildId = Some ''g1''\<rparr>"
    "fetchChannel sample_env (trim ''c9'') =
             Some \<lparr>channel_type = Some GuildVoice, channel_guildId = Some ''g9''\<rparr>"
    "\<not> isVoiceChannel 0" "isVoiceChannel GuildVoice"
    by (simp_all add: sample_env_def isVoiceChannel_def GuildVoice_def GuildStageVoice_def)
  show ?thesis
    using h f
      join_invalid_channel [OF h(1,2,3) g(1), of sample_env]
      join_invalid_channel [OF h(1,2,4) g(2), of sample_env]
    by auto
qed

text \<open>
  C4 as stated fails when the guild's session is already on the requested channel and the
  channel can no longer be fetched: the early return for the same channel precedes the
  validation, so \<^verbatim>\<open>join\<close> reports success and the session stays registered.
\<close>

theorem join_invalid_channel_counterexample:
  "reachable sample_joined \<and>
   fetchChannel sample_env_gone (trim ''c1'') = None \<and>
   ok (fst (join sample_env_gone ''g1'' ''c1'' sample_joined)) \<and>
   map_of (sessions (snd (join sample_env_gone ''g1'' ''c1'' sample_joined))) ''g1'' =
     Some sample_entry"
proof -
  have h: "map_of (sessions sample_joined) ''g1'' = Some sample_entry"
    "channelId sample_entry = ''c1''"
    by (simp_all add: sample_entry_def)
  have "join sample_env_gone ''g1'' ''c1'' sample_joined =
     (\<lparr>ok = True, message = ''Already connected to <#c1>.'',
       res_channelId = Some ''c1'', res_guildId = Some ''g1''\<rparr>, sample_joined)"
    using h by (simp add: join_def Let_def)
  then show ?thesis
    using h reachable_sample_joined by (simp add: sample_env_gone_def)
qed

text \<open>
  C5, as amended. \<^verbatim>\<open>leave\<close> returns a failure and changes nothing when no session is
  registered under the trimmed guild id, or when a non-empty channel id is given that is
  not the session's channel. Otherwise (no channel id, an empty one, or the session's)
  it stops the session's player, destroys its connection, removes the session from the
  registry and returns success.
\<close>

theorem leave_result:
  "(map_of (sessions m) (trim guild) = None \<longrightarrow>
      leave guild channelOpt m = (failure ''Not connected to a voice channel.'', m)) \<and>
   (\<forall>entry. map_of (sessions m) (trim guild) = Some entry \<and> truthy channelOpt \<and>
        channelOpt \<noteq> Some (channelId entry) \<longrightarrow>
      leave guild channelOpt m = (failure ''Not connected to that voice channel.'', m)) \<and>
   (\<forall>entry. map_of (sessions m) (trim guild) = Some entry \<and>
        (channelOpt = None \<or> channelOpt = Some [] \<or> channelOpt = Some (channelId entry)) \<longrightarrow>
      fst (leave guild channelOpt m) =
        \<lparr>ok = True, message = ''Left <#'' @ channelId entry @ ''>.'',
         res_channelId = Some (channelId entry), res_guildId = Some (trim guild)\<rparr> \<and>
      calls (players (snd (leave guild channelOpt m)) (player entry)) =
        calls (players m (player entry)) @ [Stop False] \<and>
      destroyed (connections (snd (leave guild channelOpt m)) (connection entry)) \<and>
      map_of (sessions (snd (leave guild channelOpt m))) (trim guild) = None)"
proof -
  have s: "fst (leave guild channelOpt m) =
        \<lparr>ok = True, message = ''Left <#'' @ channelId entry @ ''>.'',
         res_channelId = Some (channelId entry), res_guildId = Some (trim guild)\<rparr> \<and>
      calls (players (snd (leave guild channelOpt m)) (player entry)) =
        calls (players m (player entry)) @ [Stop False] \<and>
      destroyed (connections (snd (leave guild channelOpt m)) (connection entry)) \<and>
      map_of (sessions (snd (leave guild channelOpt m))) (trim guild) = None"
    if e: "map_of (sessions m) (trim guild) = Some entry"
      and c: "channelOpt = None \<or> channelOpt = Some [] \<or> channelOpt = Some (channelId entry)"
    for entry
  proof -
    from c have "\<not> truthy channelOpt \<or> channelOpt = Some (channelId entry)"
      by (auto simp: truthy_def)
    from leave_success [OF e this] show ?thesis
      by (simp add: stop_calls delete_conv')
  qed
  show ?thesis
  proof (intro conjI allI impI)
    assume "map_of (sessions m) (trim guild) = None"
    then show "leave guild channelOpt m = (failure ''Not connected to a voice channel.'', m)"
      by (rule leave_None)
  next
    fix entry
    assume "map_of (sessions m) (trim guild) = Some entry \<and> truthy channelOpt \<and>
        channelOpt \<noteq> Some (channelId entry)"
    then show "leave guild channelOpt m = (failure ''Not connected to that voice channel.'', m)"
      by (simp add: leave_mismatch)
  next
    fix entry
    assume a: "map_of (sessions m) (trim guild) = Some entry \<and>
        (channelOpt = None \<or> channelOpt = Some [] \<or> channelOpt = Some (channelId entry))"
    show "fst (leave guild channelOpt m) =
        \<lparr>ok = True, message = ''Left <#'' @ channelId entry @ ''>.'',
         res_channelId = Some (channelId entry), res_guildId = Some (trim guild)\<rparr>"
      "calls (players (snd (leave guild channelOpt m)) (player entry)) =
        calls (players m (player entry)) @ [Stop False]"
      "destroyed (connections (snd (leave guild channelOpt m)) (connection entry))"
      "map_of (sessions (snd (leave guild channelOpt m))) (trim guild) = None"
      using s [of entry] a by blast+
  qed
qed

theorem leave_result_witness:
  "map_of (sessions sample_manager) (trim ''g1'') = None \<and>
   leave ''g1'' None sample_manager =
     (failure ''Not connected to a voice channel.'', sample_manager) \<and>
   map_of (sessions sample_joined) (trim ''g1'') = Some sample_entry \<and>
   truthy (Some ''c2'') \<and> Some ''c2'' \<noteq> Some (channelId sample_entry) \<and>
   leave ''g1'' (Some ''c2'') sample_joined =
     (failure ''Not connected to that voice channel.'', sample_joined) \<and>
   ok (fst (leave ''g1'' None sample_joined)) \<and>
   calls (players (snd (leave ''g1'' None sample_joined)) (player sample_entry)) = [Stop False] \<and>
   destroyed (connections (snd (leave ''g1'' None sample_joined)) (connection sample_entry)) \<and>
   map_of (sessions (snd (leave ''g1'' None sample_joined))) (trim ''g1'') = None \<and>
   trim (CHR 0xA0 # ''g1'' @ [CHR 0xA0]) = ''g1'' \<and>
   ok (fst (leave (CHR 0xA0 # ''g1'' @ [CHR 0xA0]) None sample_joined)) \<and>
   map_of (sessions (snd (leave (CHR 0xA0 # ''g1'' @ [CHR 0xA0]) None sample_joined))) ''g1'' = None"
proof -
  let ?g = "CHR 0xA0 # ''g1'' @ [CHR 0xA0]"
  have t: "trim ?g = ''g1''"
    by (simp add: trim_def isWhiteSpace_def)
  have hg: "map_of (sessions sample_joined) (trim ?g) = Some sample_entry"
    unfolding t by simp
  have e: "fst (leave ?g None sample_joined) =
        \<lparr>ok = True, message = ''Left <#'' @ channelId sample_entry @ ''>.'',
         res_channelId = Some (channelId sample_entry), res_guildId = Some (trim ?g)\<rparr>"
      "map_of (sessions (snd (leave ?g None sample_joined))) (trim ?g) = None"
    using leave_result [of sample_joined ?g None] hg by blast+
  have f: "ok (fst (leave ?g None sample_joined))"
    by (simp only: e(1) VoiceOperationResult.simps)
  have h: "map_of (sessions sample_manager) (trim ''g1'') = None"
    "map_of (sessions sample_joined) (trim ''g1'') = Some sample_entry"
    "truthy (Some ''c2'')" "Some ''c2'' \<noteq> Some (channelId sample_entry)"
    "calls (players sample_joined (player sample_entry)) = []"
    by (simp_all add: sample_entry_def truthy_def)
  have a: "leave ''g1'' None sample_manager =
     (failure ''Not connected to a voice channel.'', sample_manager)"
    using leave_result [of sample_manager "''g1''" None] h(1) by blast
  have b: "leave ''g1'' (Some ''c2'') sample_joined =
     (failure ''Not connected to that voice channel.'', sample_joined)"
    using leave_result [of sample_joined "''g1''" "Some ''c2''"] h(2,3,4) by blast
  have c: "fst (leave ''g1'' None sample_joined) =
        \<lparr>ok = True, message = ''Left <#'' @ channelId sample_entry @ ''>.'',
         res_channelId = Some (channelId sample_entry), res_guildId = Some (trim ''g1'')\<rparr>"
      "calls (players (snd (leave ''g1'' None sample_joined)) (player sample_entry)) =
        calls (players sample_joined (player sample_entry)) @ [Stop False]"
      "destroyed (connections (snd (leave ''g1'' None sample_joined)) (connection sample_entry))"
      "map_of (sessions (snd (leave ''g1'' None sample_joined))) (trim ''g1'') = None"
    using leave_result [of sample_joined "''g1''" None] h(2) by blast+
  have "ok (fst (leave ''g1'' None sample_joined))"
    by (simp only: c(1) VoiceOperationResult.simps)
  then show ?thesis
    using h(1,2,3,4) a b c(3,4) c(2) [unfolded h(5)] t f e(2) [unfolded t] by simp
qed

text \<open>
  C5 as stated fails for an empty channel id: it is given and does not match the
  session's channel, yet \<^verbatim>\<open>leave\<close> treats it as absent, tears the session down and reports
  success.
\<close>

theorem leave_result_counterexample:
  "map_of (sessions sample_joined) ''g1'' = Some sample_entry \<and>
   Some [] \<noteq> Some (channelId sample_entry) \<and>
   ok (fst (leave ''g1'' (Some []) sample_joined)) \<and>
   destroyed (connections (snd (leave ''g1'' (Some []) sample_joined)) (connection sample_entry)) \<and>
   map_of (sessions (snd (leave ''g1'' (Some []) sample_joined))) ''g1'' = None"
proof -
  have h: "map_of (sessions sample_joined) (trim ''g1'') = Some sample_entry"
    "Some [] \<noteq> Some (channelId sample_entry)"
    by (simp_all add: sample_entry_def)
  have "\<not> truthy (Some []) \<or> Some [] = Some (channelId sample_entry)"
    by (simp add: truthy_def)
  from leave_success [OF h(1) this] show ?thesis
    using h by (simp add: delete_conv')
qed

text \<open>
  C10. When voice is disabled (the account has no voice configuration, or its \<^verbatim>\<open>enabled\<close>
  is \<^verbatim>\<open>false\<close>), \<^verbatim>\<open>join\<close> returns the failure that names the setting and \<^verbatim>\<open>autoJoin\<close> returns at
  once; when voice is enabled and the guild id or the channel id is empty or consists of
  white space, \<^verbatim>\<open>join\<close> returns the failure "Missing guildId or channelId.". In all these
  cases the state, and with it the registry, is unchanged.
\<close>

theorem voice_disabled:
  "(\<not> voiceEnabled m \<longrightarrow>
      join env guild channel m =
        (failure ''Discord voice is disabled (channels.discord.voice.enabled).'', m) \<and>
      autoJoin env m = m) \<and>
   (voiceEnabled m \<and>
      ((\<forall>c \<in> set guild. isWhiteSpace c) \<or> (\<forall>c \<in> set channel. isWhiteSpace c)) \<longrightarrow>
      join env guild channel m = (failure ''Missing guildId or channelId.'', m)) \<and>
   ((\<forall>c \<in> set guild. isWhiteSpace c) \<or> (\<forall>c \<in> set channel. isWhiteSpace c) \<longrightarrow>
      \<not> ok (fst (join env guild channel m)) \<and> snd (join env guild channel m) = m) \<and>
   (voiceEnabled m \<and> (trim guild = [] \<or> trim channel = []) \<longrightarrow>
      join env guild channel m = (failure ''Missing guildId or channelId.'', m)) \<and>
   (voiceEnabled (new_manager voice botId) \<longleftrightarrow>
      (\<exists>v. voice = Some v \<and> enabled v \<noteq> Some False)) \<and>
   \<not> ok (failure msg)"
proof (intro conjI impI)
  assume "\<not> voiceEnabled m"
  then show "join env guild channel m =
        (failure ''Discord voice is disabled (channels.discord.voice.enabled).'', m)"
    "autoJoin env m = m"
    by (simp_all add: join_def autoJoin_def)
next
  assume a: "voiceEnabled m \<and>
      ((\<forall>c \<in> set guild. isWhiteSpace c) \<or> (\<forall>c \<in> set channel. isWhiteSpace c))"
  then have "trim guild = [] \<or> trim channel = []"
    by (simp add: trim_Nil_iff)
  then show "join env guild channel m = (failure ''Missing guildId or channelId.'', m)"
    using a by (auto simp: join_def Let_def)
next
  assume "(\<forall>c \<in> set guild. isWhiteSpace c) \<or> (\<forall>c \<in> set channel. isWhiteSpace c)"
  then have "trim guild = [] \<or> trim channel = []"
    by (simp add: trim_Nil_iff)
  then show "\<not> ok (fst (join env guild channel m))" "snd (join env guild channel m) = m"
    by (auto simp: join_def Let_def failure_def)
next
  assume "voiceEnabled m \<and> (trim guild = [] \<or> trim channel = [])"
  then show "join env guild channel m = (failure ''Missing guildId or channelId.'', m)"
    by (auto simp: join_def Let_def)
next
  show "voiceEnabled (new_manager voice botId) \<longleftrightarrow>
      (\<exists>v. voice = Some v \<and> enabled v \<noteq> Some False)"
    by (cases voice) (simp_all add: new_manager_def)
  show "\<not> ok (failure msg)"
    by (simp add: failure_def)
qed

theorem voice_disabled_witness:
  "\<not> voiceEnabled (new_manager (Some \<lparr>enabled = Some False, autoJoin_config = Some [(''g1'', ''c1'')]\<rparr>) None) \<and>
   \<not> voiceEnabled (new_manager None None) \<and>
   join sample_env ''g1'' ''c1'' (new_manager None None) =
     (failure ''Discord voice is disabled (channels.discord.voice.enabled).'', new_manager None None) \<and>
   autoJoin sample_env
       (new_manager (Some \<lparr>enabled = Some False, autoJoin_config = Some [(''g1'', ''c1'')]\<rparr>) None) =
     new_manager (Some \<lparr>enabled = Some False, autoJoin_config = Some [(''g1'', ''c1'')]\<rparr>) None \<and>
   voiceEnabled sample_manager \<and>
   join sample_env '' '' ''c1'' sample_manager =
     (failure ''Missing guildId or channelId.'', sample_manager) \<and>
   join sample_env ''g1'' [] sample_joined =
     (failure ''Missing guildId or channelId.'', sample_joined) \<and>
   join sample_env [CHR 0xA0] ''c1'' sample_manager =
     (failure ''Missing guildId or channelId.'', sample_manager) \<and>
   trim [CHR 0x09, CHR 0xA0, CHR 0x20] = [] \<and>
   join sample_env ''g1'' [CHR 0x09, CHR 0xA0, CHR 0x20] sample_joined =
     (failure ''Missing guildId or channelId.'', sample_joined)"
proof -
  let ?off = "new_manager (Some \<lparr>enabled = Some False, autoJoin_config = Some [(''g1'', ''c1'')]\<rparr>) None"
  have h: "\<not> voiceEnabled ?off" "\<not> voiceEnabled (new_manager None None)"
    "voiceEnabled sample_manager" "voiceEnabled sample_joined"
    by (simp_all add: new_manager_def)
  have w: "\<forall>c \<in> set '' ''. isWhiteSpace c" "\<forall>c \<in> set []. isWhiteSpace c"
    "\<forall>c \<in> set [CHR 0xA0]. isWhiteSpace c"
    by (simp_all add: isWhiteSpace_def)
  have t: "trim [CHR 0x09, CHR 0xA0, CHR 0x20] = []"
    by (simp add: trim_def isWhiteSpace_def)
  have a: "join sample_env ''g1'' ''c1'' (new_manager None None) =
     (failure ''Discord voice is disabled (channels.discord.voice.enabled).'', new_manager None None)"
    using voice_disabled [of "new_manager None None" sample_env "''g1''" "''c1''"] h(2) by blast
  have b: "autoJoin sample_env ?off = ?off"
    using voice_disabled [of ?off sample_env] h(1) by blast
  have c: "join sample_env '' '' ''c1'' sample_manager =
     (failure ''Missing guildId or channelId.'', sample_manager)"
    using voice_disabled [of sample_manager sample_env "'' ''" "''c1''"] h(3) w(1) by blast
  have d: "join sample_env ''g1'' [] sample_joined =
     (failure ''Missing guildId or channelId.'', sample_joined)"
    using voice_disabled [of sample_joined sample_env "''g1''" "[]"] h(4) w(2) by blast
  have e: "join sample_env [CHR 0xA0] ''c1'' sample_manager =
     (failure ''Missing guildId or channelId.'', sample_manager)"
    using voice_disabled [of sample_manager sample_env "[CHR 0xA0]" "''c1''"] h(3) w(3) by blast
  have f: "join sample_env ''g1'' [CHR 0x09, CHR 0xA0, CHR 0x20] sample_joined =
     (failure ''Missing guildId or channelId.'', sample_joined)"
    using voice_disabled [of sample_joined sample_env "''g1''" "[CHR 0x09, CHR 0xA0, CHR 0x20]"]
      h(4) t by blast
  show ?thesis
    using h a b c d e f t by simp
qed

section \<open>Claims about the queues, the capture and the pipeline\<close>

text \<open>
  C2. Within one session the processing tasks and, separately, the playback tasks run in
  the order of their enqueueing. When \<open>A\<close> is enqueued before \<open>B\<close>, the chain settles with
  the events of \<open>A\<close> (its start, then its completion, or its failure and the warning)
  wholly before the start of \<open>B\<close>; the events of \<open>B\<close> are there whether \<open>A\<close> returned or
  threw, and the chain ends fulfilled.
\<close>

theorem queues_fifo:
  assumes "settle rp (processingQueue entry) = (tp, Fulfilled)"
    and "settle rb (playbackQueue entry) = (tb, Fulfilled)"
  shows "settle rp (processingQueue (foldl enqueueProcessing entry (xs @ A # ys @ B # zs))) =
           (tp @ concat (map (task_events rp ''discord voice: processing failed: '') xs) @
            task_events rp ''discord voice: processing failed: '' A @
            concat (map (task_events rp ''discord voice: processing failed: '') ys) @
            task_events rp ''discord voice: processing failed: '' B @
            concat (map (task_events rp ''discord voice: processing failed: '') zs), Fulfilled) \<and>
         settle rb (playbackQueue (foldl enqueuePlayback entry (ps @ P # qs @ Q # rs))) =
           (tb @ concat (map (task_events rb ''discord voice: playback failed: '') ps) @
            task_events rb ''discord voice: playback failed: '' P @
            concat (map (task_events rb ''discord voice: playback failed: '') qs) @
            task_events rb ''discord voice: playback failed: '' Q @
            concat (map (task_events rb ''discord voice: playback failed: '') rs), Fulfilled)"
proof
  show "settle rp (processingQueue (foldl enqueueProcessing entry (xs @ A # ys @ B # zs))) =
           (tp @ concat (map (task_events rp ''discord voice: processing failed: '') xs) @
            task_events rp ''discord voice: processing failed: '' A @
            concat (map (task_events rp ''discord voice: processing failed: '') ys) @
            task_events rp ''discord voice: processing failed: '' B @
            concat (map (task_events rp ''discord voice: processing failed: '') zs), Fulfilled)"
    by (simp only: settle_enqueueProcessing_all [OF assms(1)] map_append list.map concat_append
        concat.simps append_assoc)
  show "settle rb (playbackQueue (foldl enqueuePlayback entry (ps @ P # qs @ Q # rs))) =
           (tb @ concat (map (task_events rb ''discord voice: playback failed: '') ps) @
            task_events rb ''discord voice: playback failed: '' P @
            concat (map (task_events rb ''discord voice: playback failed: '') qs) @
            task_events rb ''discord voice: playback failed: '' Q @
            concat (map (task_events rb ''discord voice: playback failed: '') rs), Fulfilled)"
    by (simp only: settle_enqueuePlayback_all [OF assms(2)] map_append list.map concat_append
        concat.simps append_assoc)
qed

theorem queues_fifo_witness:
  "settle (\<lambda>t. wavPath t \<noteq> ''a.wav'') (processingQueue sample_entry) = ([], Fulfilled) \<and>
   settle (\<lambda>p. p \<noteq> ''a.ogg'') (playbackQueue sample_entry) = ([], Fulfilled) \<and>
   settle (\<lambda>t. wavPath t \<noteq> ''a.wav'')
       (processingQueue (foldl enqueueProcessing sample_entry
          [sample_segment ''a.wav'', sample_segment ''b.wav''])) =
     ([Started (sample_segment ''a.wav''), Failed (sample_segment ''a.wav''),
       Warned ''discord voice: processing failed: '' (sample_segment ''a.wav''),
       Started (sample_segment ''b.wav''), Completed (sample_segment ''b.wav'')], Fulfilled) \<and>
   settle (\<lambda>p. p \<noteq> ''a.ogg'')
       (playbackQueue (foldl enqueuePlayback sample_entry [''a.ogg'', ''b.ogg''])) =
     ([Started ''a.ogg'', Failed ''a.ogg'', Warned ''discord voice: playback failed: '' ''a.ogg'',
       Started ''b.ogg'', Completed ''b.ogg''], Fulfilled)"
proof -
  have h: "settle (\<lambda>t. wavPath t \<noteq> ''a.wav'') (processingQueue sample_entry) = ([], Fulfilled)"
    "settle (\<lambda>p. p \<noteq> ''a.ogg'') (playbackQueue sample_entry) = ([], Fulfilled)"
    by (simp_all add: sample_entry_def)
  show ?thesis
    using h queues_fifo [OF h, where xs = "[]" and ys = "[]" and zs = "[]"
        and A = "sample_segment ''a.wav''" and B = "sample_segment ''b.wav''"
        and ps = "[]" and qs = "[]" and rs = "[]" and P = "''a.ogg''" and Q = "''b.ogg''"]
    by (simp add: task_events_def sample_segment_def)
qed

lemma decodeOpusStream_sample:
  "decodeOpusStream (decode (sample_capture n)) (stream (sample_capture n)) = replicate n 0"
  by (simp add: sample_capture_def decodeOpusStream_def alloc_def)

text \<open>
  C6. The estimated duration of a PCM buffer of \<open>N\<close> bytes is \<open>N / 192000\<close> seconds, and a
  captured segment whose estimated duration is below 0.35 seconds is not enqueued: the
  processing queue after the capture is the queue before it.
\<close>

theorem short_segments_dropped:
  "estimateDurationSeconds pcm = of_nat (length pcm) / 192000 \<and>
   MIN_SEGMENT_SECONDS = 35 / 100 \<and>
   (estimateDurationSeconds (decodeOpusStream (decode cenv) (stream cenv)) < 35 / 100 \<longrightarrow>
      processingQueue (snd (captureEnd cenv user entry)) = processingQueue entry \<and>
      processingQueue (fst (snd (handleSpeakingStart cenv user entry m))) = processingQueue entry)"
proof (intro conjI impI)
  show "estimateDurationSeconds pcm = of_nat (length pcm) / 192000"
    by (rule estimateDurationSeconds_eq)
  show "MIN_SEGMENT_SECONDS = 35 / 100"
    by (simp add: MIN_SEGMENT_SECONDS_def)
next
  assume "estimateDurationSeconds (decodeOpusStream (decode cenv) (stream cenv)) < 35 / 100"
  then have short: "estimateDurationSeconds (decodeOpusStream (decode cenv) (stream cenv)) <
      MIN_SEGMENT_SECONDS"
    by (simp add: MIN_SEGMENT_SECONDS_def)
  show "processingQueue (snd (captureEnd cenv user entry)) = processingQueue entry"
    by (rule captureEnd_short [OF short])
  show "processingQueue (fst (snd (handleSpeakingStart cenv user entry m))) = processingQueue entry"
  proof (cases "fst (speakingStart user entry m)")
    case Ignored
    then show ?thesis
      by (auto simp: handleSpeakingStart_def speakingStart_def Let_def split: if_splits)
  next
    case Capturing
    then have "handleSpeakingStart cenv user entry m =
        (fst (captureEnd cenv user (entry\<lparr>activeSpeakers := insert user (activeSpeakers entry)\<rparr>)),
         snd (captureEnd cenv user (entry\<lparr>activeSpeakers := insert user (activeSpeakers entry)\<rparr>)),
         snd (snd (speakingStart user entry m)))"
      by (auto simp: handleSpeakingStart_def speakingStart_def Let_def split: if_splits prod.splits)
    then show ?thesis
      using captureEnd_short [OF short, of user
          "entry\<lparr>activeSpeakers := insert user (activeSpeakers entry)\<rparr>"]
      by simp
  qed
qed

theorem short_segments_dropped_witness:
  "estimateDurationSeconds
     (decodeOpusStream (decode (sample_capture 67199)) (stream (sample_capture 67199))) < 35 / 100 \<and>
   processingQueue (snd (captureEnd (sample_capture 67199) ''u1'' sample_entry)) = PromiseResolve \<and>
   processingQueue (fst (snd (handleSpeakingStart (sample_capture 67199) ''u1'' sample_entry
     sample_manager))) = PromiseResolve \<and>
   processingQueue (snd (captureEnd (sample_capture 67200) ''u1'' sample_entry)) =
     Catch (Then PromiseResolve \<lparr>wavPath = ''/tmp/discord-voice-1/segment-0001.wav'', userId = ''u1'',
         durationSeconds = 35 / 100\<rparr>)
       ''discord voice: processing failed: ''"
proof -
  have h: "estimateDurationSeconds
     (decodeOpusStream (decode (sample_capture 67199)) (stream (sample_capture 67199))) < 35 / 100"
    by (simp add: decodeOpusStream_sample estimateDurationSeconds_eq)
  have q: "processingQueue sample_entry = PromiseResolve"
    by (simp add: sample_entry_def)
  have long: "processingQueue (snd (captureEnd (sample_capture 67200) ''u1'' sample_entry)) =
     Catch (Then PromiseResolve \<lparr>wavPath = ''/tmp/discord-voice-1/segment-0001.wav'', userId = ''u1'',
         durationSeconds = 35 / 100\<rparr>)
       ''discord voice: processing failed: ''"
    by (simp add: captureEnd_def decodeOpusStream_sample writeWavFile_def buildWavBuffer_Inr
        estimateDurationSeconds_eq MIN_SEGMENT_SECONDS_def enqueueProcessing_def q
        sample_capture_def [where n = 67200, THEN arg_cong [where f = fs]])
  show ?thesis
    using h long
      short_segments_dropped [of "replicate 67199 0" "sample_capture 67199" "''u1''" sample_entry
        sample_manager]
    by (simp add: q)
qed

lemma processSegment_cases:
  obtains (unchanged) r ws where "processSegment penv params entry = (r, entry, ws)"
  | (enqueued) transcript payloads ttsResult path where
      "transcribeAudio penv (wavPath params) = Returns (Some transcript)" "transcript \<noteq> []"
      "agentCommand penv
         (promptOf (resolveSpeakerLabel penv (guildId entry) (userId params)) transcript)
         (route entry) = Returns payloads"
      "replyTextOf payloads \<noteq> []"
      "speakTextOf (parseTtsDirectives penv (replyTextOf payloads)) \<noteq> []"
      "textToSpeech penv (speakTextOf (parseTtsDirectives penv (replyTextOf payloads)))
         (parseTtsDirectives penv (replyTextOf payloads)) = Returns ttsResult"
      "success ttsResult" "audioPath ttsResult = Some path" "path \<noteq> []"
      "processSegment penv params entry = (Returns (), enqueuePlayback entry path, [])"
proof (cases "transcribeAudio penv (wavPath params)")
  case (Throws err)
  then show ?thesis using unchanged by (simp add: processSegment_def)
next
  case (Returns t)
  show ?thesis
  proof (cases t)
    case None
    then show ?thesis using Returns unchanged by (simp add: processSegment_def)
  next
    case (Some transcript)
    note tr = Returns [unfolded Some]
    show ?thesis
    proof (cases "transcript = []")
      case True
      then show ?thesis using tr unchanged by (simp add: processSegment_def)
    next
      case ne: False
      let ?prompt = "promptOf (resolveSpeakerLabel penv (guildId entry) (userId params)) transcript"
      show ?thesis
      proof (cases "agentCommand penv ?prompt (route entry)")
        case (Throws err)
        then show ?thesis using tr ne unchanged by (simp add: processSegment_def Let_def)
      next
        case ag: (Returns payloads)
        let ?d = "parseTtsDirectives penv (replyTextOf payloads)"
        show ?thesis
        proof (cases "replyTextOf payloads = [] \<or> speakTextOf ?d = []")
          case True
          then show ?thesis using tr ne ag unchanged by (auto simp: processSegment_def Let_def)
        next
          case False
          then have r: "replyTextOf payloads \<noteq> []" and sp: "speakTextOf ?d \<noteq> []" by simp_all
          show ?thesis
          proof (cases "textToSpeech penv (speakTextOf ?d) ?d")
            case (Throws err)
            then show ?thesis using tr ne ag r sp unchanged by (simp add: processSegment_def Let_def)
          next
            case tts: (Returns ttsResult)
            show ?thesis
            proof (cases "success ttsResult \<and> truthy (audioPath ttsResult)")
              case False
              then show ?thesis
                using tr ne ag r sp tts unchanged by (auto simp: processSegment_def Let_def)
            next
              case True
              then obtain path where p: "audioPath ttsResult = Some path" "path \<noteq> []"
                by (auto simp: truthy_def split: option.splits)
              have "processSegment penv params entry = (Returns (), enqueuePlayback entry path, [])"
                using tr ne ag r sp tts True p by (simp add: processSegment_def Let_def)
              then show ?thesis using enqueued tr ne ag r sp tts True p by blast
            qed
          qed
        qed
      qed
    qed
  qed
qed

lemma processSegment_synthesis_failed:
  assumes "\<forall>t directive ttsResult. textToSpeech penv t directive = Returns ttsResult \<longrightarrow>
             \<not> success ttsResult"
  shows "fst (snd (processSegment penv params entry)) = entry"
proof (cases rule: processSegment_cases [of penv params entry])
  case (unchanged r ws)
  then show ?thesis by simp
next
  case (enqueued transcript payloads ttsResult path)
  then show ?thesis using assms by blast
qed

text \<open>
  C7. \<^verbatim>\<open>processSegment\<close> changes the playback queue only if the transcript is non-empty,
  the agent's reply text is non-empty, the speak text is non-empty and text-to-speech
  returned success with a non-empty audio path, and then by enqueueing that path. When
  synthesis does not succeed, the session is as before: nothing is enqueued, so no
  playback task will touch the player.
\<close>

theorem playback_only_after_synthesis:
  "(playbackQueue (fst (snd (processSegment penv params entry))) \<noteq> playbackQueue entry \<longrightarrow>
      (\<exists>transcript payloads ttsResult path.
         transcribeAudio penv (wavPath params) = Returns (Some transcript) \<and> transcript \<noteq> [] \<and>
         agentCommand penv
           (promptOf (resolveSpeakerLabel penv (guildId entry) (userId params)) transcript)
           (route entry) = Returns payloads \<and>
         replyTextOf payloads \<noteq> [] \<and>
         speakTextOf (parseTtsDirectives penv (replyTextOf payloads)) \<noteq> [] \<and>
         textToSpeech penv (speakTextOf (parseTtsDirectives penv (replyTextOf payloads)))
           (parseTtsDirectives penv (replyTextOf payloads)) = Returns ttsResult \<and>
         success ttsResult \<and> audioPath ttsResult = Some path \<and> path \<noteq> [] \<and>
         processSegment penv params entry = (Returns (), enqueuePlayback entry path, []))) \<and>
   ((\<forall>t directive ttsResult. textToSpeech penv t directive = Returns ttsResult \<longrightarrow>
        \<not> success ttsResult) \<longrightarrow>
      fst (snd (processSegment penv params entry)) = entry)"
proof (intro conjI impI)
  assume changed: "playbackQueue (fst (snd (processSegment penv params entry))) \<noteq>
      playbackQueue entry"
  show "\<exists>transcript payloads ttsResult path.
         transcribeAudio penv (wavPath params) = Returns (Some transcript) \<and> transcript \<noteq> [] \<and>
         agentCommand penv
           (promptOf (resolveSpeakerLabel penv (guildId entry) (userId params)) transcript)
           (route entry) = Returns payloads \<and>
         replyTextOf payloads \<noteq> [] \<and>
         speakTextOf (parseTtsDirectives penv (replyTextOf payloads)) \<noteq> [] \<and>
         textToSpeech penv (speakTextOf (parseTtsDirectives penv (replyTextOf payloads)))
           (parseTtsDirectives penv (replyTextOf payloads)) = Returns ttsResult \<and>
         success ttsResult \<and> audioPath ttsResult = Some path \<and> path \<noteq> [] \<and>
         processSegment penv params entry = (Returns (), enqueuePlayback entry path, [])"
  proof (cases rule: processSegment_cases [of penv params entry])
    case (unchanged r ws)
    then show ?thesis using changed by simp
  next
    case (enqueued transcript payloads ttsResult path)
    then show ?thesis by blast
  qed
next
  assume "\<forall>t directive ttsResult. textToSpeech penv t directive = Returns ttsResult \<longrightarrow>
        \<not> success ttsResult"
  then show "fst (snd (processSegment penv params entry)) = entry"
    by (rule processSegment_synthesis_failed)
qed

lemma sample_transcript:
  "transcribeAudio (sample_pipeline s) path = Returns (Some ''hello'')"
  by (simp add: transcribeAudio_def sample_pipeline_def trim_def isWhiteSpace_def)

lemma sample_label: "resolveSpeakerLabel (sample_pipeline s) guild user = ''ann''"
  by (simp add: resolveSpeakerLabel_def sample_pipeline_def userLabel_def)

lemma sample_reply: "replyTextOf [None, Some ''hi ann''] = ''hi ann''"
  by (simp add: replyTextOf_def trim_def isWhiteSpace_def)

lemma sample_processed:
  "processSegment (sample_pipeline True) (sample_segment ''seg.wav'') sample_entry =
     (Returns (), enqueuePlayback sample_entry ''reply.ogg'', [])"
  "processSegment (sample_pipeline False) (sample_segment ''seg.wav'') sample_entry =
     (Returns (), sample_entry, [''discord voice: TTS failed: quota''])"
proof -
  have f: "agentCommand (sample_pipeline s) p r = Returns [None, Some ''hi ann'']"
    "parseTtsDirectives (sample_pipeline s) t = \<lparr>ttsText = None, cleanedText = t\<rparr>"
    "textToSpeech (sample_pipeline s) t d =
       Returns \<lparr>success = s, audioPath = (if s then Some ''reply.ogg'' else None),
                tts_error = (if s then None else Some ''quota'')\<rparr>"
    for s p r t d
    by (simp_all add: sample_pipeline_def)
  have sp: "speakTextOf \<lparr>ttsText = None, cleanedText = ''hi ann''\<rparr> = ''hi ann''"
    by (simp add: speakTextOf_def trim_def isWhiteSpace_def)
  show "processSegment (sample_pipeline True) (sample_segment ''seg.wav'') sample_entry =
     (Returns (), enqueuePlayback sample_entry ''reply.ogg'', [])"
    by (simp add: processSegment_def sample_transcript sample_label f sample_reply sp truthy_def)
  show "processSegment (sample_pipeline False) (sample_segment ''seg.wav'') sample_entry =
     (Returns (), sample_entry, [''discord voice: TTS failed: quota''])"
    by (simp add: processSegment_def sample_transcript sample_label f sample_reply sp truthy_def)
qed

theorem playback_only_after_synthesis_witness:
  "playbackQueue (fst (snd (processSegment (sample_pipeline True) (sample_segment ''seg.wav'')
      sample_entry))) \<noteq> playbackQueue sample_entry \<and>
   (\<exists>ttsResult path.
      textToSpeech (sample_pipeline True) ''hi ann'' \<lparr>ttsText = None, cleanedText = ''hi ann''\<rparr> =
        Returns ttsResult \<and> success ttsResult \<and> audioPath ttsResult = Some path \<and>
      processSegment (sample_pipeline True) (sample_segment ''seg.wav'') sample_entry =
        (Returns (), enqueuePlayback sample_entry path, [])) \<and>
   fst (snd (processSegment (sample_pipeline False) (sample_segment ''seg.wav'') sample_entry)) =
     sample_entry \<and>
   snd (snd (processSegment (sample_pipeline False) (sample_segment ''seg.wav'') sample_entry)) =
     [''discord voice: TTS failed: quota'']"
proof -
  have q: "playbackQueue sample_entry = PromiseResolve"
    by (simp add: sample_entry_def)
  have changed: "playbackQueue (fst (snd (processSegment (sample_pipeline True)
      (sample_segment ''seg.wav'') sample_entry))) \<noteq> playbackQueue sample_entry"
    by (simp add: sample_processed enqueuePlayback_def q)
  have failing: "\<forall>t directive ttsResult.
      textToSpeech (sample_pipeline False) t directive = Returns ttsResult \<longrightarrow> \<not> success ttsResult"
    by (auto simp: sample_pipeline_def)
  have d: "parseTtsDirectives (sample_pipeline True) t = \<lparr>ttsText = None, cleanedText = t\<rparr>" for t
    by (simp add: sample_pipeline_def)
  have sp: "speakTextOf \<lparr>ttsText = None, cleanedText = ''hi ann''\<rparr> = ''hi ann''"
    by (simp add: speakTextOf_def trim_def isWhiteSpace_def)
  from playback_only_after_synthesis [of "sample_pipeline True" "sample_segment ''seg.wav''"
      sample_entry] changed
  obtain transcript payloads ttsResult path where
    e: "agentCommand (sample_pipeline True)
           (promptOf (resolveSpeakerLabel (sample_pipeline True) (guildId sample_entry)
              (userId (sample_segment ''seg.wav''))) transcript)
           (route sample_entry) = Returns payloads"
      "textToSpeech (sample_pipeline True)
         (speakTextOf (parseTtsDirectives (sample_pipeline True) (replyTextOf payloads)))
         (parseTtsDirectives (sample_pipeline True) (replyTextOf payloads)) = Returns ttsResult"
      "success ttsResult" "audioPath ttsResult = Some path"
      "processSegment (sample_pipeline True) (sample_segment ''seg.wav'') sample_entry =
        (Returns (), enqueuePlayback sample_entry path, [])"
    by blast
  from e(1) have "payloads = [None, Some ''hi ann'']"
    by (simp add: sample_pipeline_def)
  with e(2) have "textToSpeech (sample_pipeline True) ''hi ann''
      \<lparr>ttsText = None, cleanedText = ''hi ann''\<rparr> = Returns ttsResult"
    by (simp add: d sample_reply sp)
  then have first: "\<exists>ttsResult path.
      textToSpeech (sample_pipeline True) ''hi ann'' \<lparr>ttsText = None, cleanedText = ''hi ann''\<rparr> =
        Returns ttsResult \<and> success ttsResult \<and> audioPath ttsResult = Some path \<and>
      processSegment (sample_pipeline True) (sample_segment ''seg.wav'') sample_entry =
        (Returns (), enqueuePlayback sample_entry path, [])"
    using e(3,4,5) by blast
  have second: "fst (snd (processSegment (sample_pipeline False) (sample_segment ''seg.wav'')
      sample_entry)) = sample_entry"
    using playback_only_after_synthesis [of "sample_pipeline False" "sample_segment ''seg.wav''"
      sample_entry] failing by blast
  show ?thesis
    using changed first second by (simp add: sample_processed)
qed

lemma speakingStart_ignored:
  "user = [] \<or> user \<in> activeSpeakers entry \<or> botUserId m = Some user \<Longrightarrow>
   speakingStart user entry m = (Ignored, entry, m)"
  by (auto simp: speakingStart_def truthy_def)

lemma speakingStart_capturing:
  assumes "user \<noteq> []" "user \<notin> activeSpeakers entry" "botUserId m \<noteq> Some user"
  shows "speakingStart user entry m =
     (Capturing, entry\<lparr>activeSpeakers := insert user (activeSpeakers entry)\<rparr>,
      if player_status (players m (player entry)) = Playing
      then player_stop (player entry) True m else m)"
  using assms by (auto simp: speakingStart_def Let_def)

text \<open>
  C8, as amended. A "speaking started" signal for speaker \<open>S\<close> is ignored, with no capture
  and no change of state, when \<open>S\<close> is empty, is already in the active set, or is the
  bot's own user id. Otherwise \<open>S\<close> enters the active set, and \<open>S\<close> is out of it when the
  capture has ended, whatever the capture environment does (no decoded audio, a short
  segment, an enqueued segment, or an error while writing the file).
\<close>

theorem speaking_start_guard:
  "(user = [] \<or> user \<in> activeSpeakers entry \<or> botUserId m = Some user \<longrightarrow>
      speakingStart user entry m = (Ignored, entry, m) \<and>
      handleSpeakingStart cenv user entry m = (None, entry, m)) \<and>
   (user \<noteq> [] \<and> user \<notin> activeSpeakers entry \<and> botUserId m \<noteq> Some user \<longrightarrow>
      fst (speakingStart user entry m) = Capturing \<and>
      activeSpeakers (fst (snd (speakingStart user entry m))) = insert user (activeSpeakers entry) \<and>
      user \<notin> activeSpeakers (fst (snd (handleSpeakingStart cenv user entry m)))) \<and>
   user \<notin> activeSpeakers (snd (captureEnd cenv user later))"
proof (intro conjI impI)
  assume a: "user = [] \<or> user \<in> activeSpeakers entry \<or> botUserId m = Some user"
  show "speakingStart user entry m = (Ignored, entry, m)"
    by (rule speakingStart_ignored [OF a])
  then show "handleSpeakingStart cenv user entry m = (None, entry, m)"
    by (simp add: handleSpeakingStart_def)
next
  assume a: "user \<noteq> [] \<and> user \<notin> activeSpeakers entry \<and> botUserId m \<noteq> Some user"
  then have s: "speakingStart user entry m =
     (Capturing, entry\<lparr>activeSpeakers := insert user (activeSpeakers entry)\<rparr>,
      if player_status (players m (player entry)) = Playing
      then player_stop (player entry) True m else m)"
    by (simp add: speakingStart_capturing)
  show "fst (speakingStart user entry m) = Capturing"
    "activeSpeakers (fst (snd (speakingStart user entry m))) = insert user (activeSpeakers entry)"
    by (simp_all add: s)
  have "fst (snd (handleSpeakingStart cenv user entry m)) =
      snd (captureEnd cenv user (entry\<lparr>activeSpeakers := insert user (activeSpeakers entry)\<rparr>))"
    by (simp add: handleSpeakingStart_def s split: prod.splits)
  then show "user \<notin> activeSpeakers (fst (snd (handleSpeakingStart cenv user entry m)))"
    by (simp add: captureEnd_clears)
next
  show "user \<notin> activeSpeakers (snd (captureEnd cenv user later))"
    by (rule captureEnd_clears)
qed

theorem speaking_start_guard_witness:
  "botUserId sample_manager = Some ''bot'' \<and>
   speakingStart ''bot'' sample_entry sample_manager = (Ignored, sample_entry, sample_manager) \<and>
   ''u1'' \<noteq> [] \<and> ''u1'' \<notin> activeSpeakers sample_entry \<and>
   botUserId sample_manager \<noteq> Some ''u1'' \<and>
   fst (speakingStart ''u1'' sample_entry sample_manager) = Capturing \<and>
   activeSpeakers (fst (snd (speakingStart ''u1'' sample_entry sample_manager))) = {''u1''} \<and>
   ''u1'' \<notin> activeSpeakers
     (fst (snd (handleSpeakingStart (sample_capture 67200) ''u1'' sample_entry sample_manager)))"
proof -
  have h: "botUserId sample_manager = Some ''bot''" "''u1'' \<noteq> []"
    "''u1'' \<notin> activeSpeakers sample_entry" "botUserId sample_manager \<noteq> Some ''u1''"
    "activeSpeakers sample_entry = {}"
    by (simp_all add: sample_entry_def)
  have a: "speakingStart ''bot'' sample_entry sample_manager = (Ignored, sample_entry, sample_manager)"
    using speaking_start_guard [of "''bot''" sample_entry sample_manager] h(1) by blast
  have b: "fst (speakingStart ''u1'' sample_entry sample_manager) = Capturing"
    "activeSpeakers (fst (snd (speakingStart ''u1'' sample_entry sample_manager))) =
       insert ''u1'' (activeSpeakers sample_entry)"
    "''u1'' \<notin> activeSpeakers
     (fst (snd (handleSpeakingStart (sample_capture 67200) ''u1'' sample_entry sample_manager)))"
    using speaking_start_guard [of "''u1''" sample_entry sample_manager "sample_capture 67200"]
      h(2,3,4) by blast+
  show ?thesis
    using h(1,2,3,4) a b(1,3) b(2) [unfolded h(5)] by simp
qed

text \<open>
  C8 as stated fails for the empty speaker id: it is neither in the active set nor the
  bot's id, yet the signal is ignored and the id is not added.
\<close>

theorem speaking_start_guard_counterexample:
  "[] \<notin> activeSpeakers sample_entry \<and>
   botUserId sample_manager \<noteq> Some [] \<and>
   speakingStart [] sample_entry sample_manager = (Ignored, sample_entry, sample_manager) \<and>
   [] \<notin> activeSpeakers (fst (snd (speakingStart [] sample_entry sample_manager)))"
  by (simp add: speakingStart_def sample_entry_def)

end
